theory Spec2Isabelle
  imports Complex_Main "HOL-Library.Multiset"
begin

section \<open>Geometry kernel (services/cvService.ts)\<close>

text \<open>
  JavaScript numbers are modelled as exact reals: every statement below is about the
  arithmetic the code writes down, not about IEEE rounding. The fields of the source's
  \<^verbatim>\<open>interface Point { x: number; y: number }\<close> are called \<open>px\<close> and \<open>py\<close>,
  so that \<open>x\<close> and \<open>y\<close> stay usable as variables.
\<close>

record Point =
  px :: real
  py :: real

definition hypot :: "real \<Rightarrow> real \<Rightarrow> real" where
  \<comment> \<open>\<^verbatim>\<open>Math.hypot(a, b)\<close>\<close>
  "hypot a b = sqrt (a\<^sup>2 + b\<^sup>2)"

definition js_round :: "real \<Rightarrow> int" where
  \<comment> \<open>\<^verbatim>\<open>Math.round\<close>: nearest integer, halves towards plus infinity\<close>
  "js_round v = \<lfloor>v + 1 / 2\<rfloor>"

text \<open>
  \<^verbatim>\<open>
  const sortPoints = (pts: Point[]): Point[] => {
    const sorted = [...pts].sort((a, b) => a.y - b.y);
    const top = sorted.slice(0, 2).sort((a, b) => a.x - b.x);
    const bottom = sorted.slice(2, 4).sort((a, b) => b.x - a.x);
    return [top[0], top[1], bottom[0], bottom[1]];
  };
  \<close>
  \<^verbatim>\<open>Array.prototype.sort\<close> is stable, as is \<^const>\<open>sort_key\<close>; sorting by
  \<^verbatim>\<open>b.x - a.x\<close> is a stable sort on the negated key. Every call site of the
  repository passes an array of four points; on a shorter array JavaScript returns
  \<^verbatim>\<open>undefined\<close> entries, which the one caller that can receive such an array
  (\<open>applyPerspectiveCrop\<close>) turns into a rejection, modelled there.
\<close>

definition sortPoints :: "Point list \<Rightarrow> Point list" where
  "sortPoints pts =
     (let sorted = sort_key py pts;
          top = sort_key px (take 2 sorted);
          bottom = sort_key (\<lambda>p. - px p) (take 2 (drop 2 sorted))
      in [top ! 0, top ! 1, bottom ! 0, bottom ! 1])"


section \<open>The environment of a call\<close>

text \<open>
  The browser and the vision engine (OpenCV.js) are outside the repository. Their
  answers are taken as given data: whether the engine is loaded at each poll, whether a
  URL decodes to an image and of which size, which contours the engine finds, and whether
  an engine call raises. The images the code produces are recorded symbolically by the
  calls that produce them (a warp with its coordinates and size, a canvas with the
  operations drawn on it), so that two results are equal exactly when the code issued the
  same calls on the same inputs.
\<close>

datatype error = EngineUnavailable | DecodeFailure | CvError | TypeError

datatype 'a promise = Resolved 'a | Rejected error | Pending

datatype image =
    Src string
  | Warped image "Point list" "Point list" real real
  | Canvas real real "canvas_op list"
and canvas_op =
    Filter int int
  | Translate real real
  | Rotate real
  | DrawImage image real real
  | FillRect string real real real real

text \<open>
  \<open>Warped src srcCoords dstCoords w h\<close> is the data URL of
  \<^verbatim>\<open>warpPerspective(src, getPerspectiveTransform(srcCoords, dstCoords), Size(w, h))\<close>;
  \<open>Canvas w h ops\<close> is the data URL of a canvas of the assigned width and height after
  the 2D-context calls \<open>ops\<close>. \<open>FillRect\<close> (a \<^verbatim>\<open>fillStyle\<close> and a rectangle) is
  the context call that paints a background.
\<close>

record contour =
  contourArea :: real
  approxPolyDP :: "(int \<times> int) list"
  minAreaRect :: "Point \<times> Point \<times> Point \<times> Point"

text \<open>
  A contour as the engine reports it: \<^verbatim>\<open>cv.contourArea(cnt)\<close>, the vertices of
  \<^verbatim>\<open>cv.approxPolyDP(cnt, approx, 0.02 * cv.arcLength(cnt, true), true)\<close> (the
  pairs of \<^verbatim>\<open>approx.data32S\<close>, \<^verbatim>\<open>approx.rows\<close> being their number) and
  the four vertices of \<^verbatim>\<open>cv.RotatedRect.points(cv.minAreaRect(cnt))\<close>.
\<close>

record env =
  cvReady :: "nat \<Rightarrow> bool"
  imgLoad :: "image \<Rightarrow> (nat \<times> nat) option"
  cvImreadThrows :: "image \<Rightarrow> bool"
  cvEdgeContours :: "image \<Rightarrow> error + contour list"
  cvThreshContours :: "image \<Rightarrow> error + contour list"
  cvWarpThrows :: "image \<Rightarrow> Point list \<Rightarrow> real \<Rightarrow> real \<Rightarrow> bool"
  ctx2d :: bool

text \<open>
  \<open>cvReady env k\<close>: the test
  \<^verbatim>\<open>window.cv && window.cv.imread && window.cv.Mat && (window.cvReady !== false)\<close>
  at the \<open>k\<close>-th poll of a call (polls are 100 ms apart). \<open>imgLoad env u\<close>: the natural
  width and height when \<^verbatim>\<open>img.onload\<close> fires, \<open>None\<close> when \<^verbatim>\<open>img.onerror\<close>
  fires. \<open>cvEdgeContours\<close> and \<open>cvThreshContours\<close>: the external contours of the
  dilated Canny edge map and of the dilated inverted adaptive threshold, or the exception
  an engine call of that stage raised. \<open>ctx2d\<close>: whether
  \<^verbatim>\<open>canvas.getContext('2d')\<close> returns a context.
\<close>

section \<open>services/cvService.ts\<close>

text \<open>
  \<^verbatim>\<open>
  const waitForCV = async (retries = 300): Promise<void> => {
    if (window.cv && ... && (window.cvReady !== false)) return;
    if (retries <= 0) { throw new Error("OpenCV.js ..."); }
    await new Promise(resolve => setTimeout(resolve, 100));
    return waitForCV(retries - 1);
  };
  \<close>
  The second argument counts the 100 ms sleeps so far; the result is that count when the
  engine is found ready.
\<close>

function waitForCV :: "(nat \<Rightarrow> bool) \<Rightarrow> nat \<Rightarrow> int \<Rightarrow> error + nat" where
  "waitForCV ready t retries =
     (if ready t then Inr t
      else if retries \<le> 0 then Inl EngineUnavailable
      else waitForCV ready (Suc t) (retries - 1))"
  by pat_completeness auto
termination
  by (relation "measure (\<lambda>(ready, t, retries). nat retries)") auto

declare waitForCV.simps [simp del]

definition scaled :: "real \<Rightarrow> real \<Rightarrow> real \<Rightarrow> Point" where
  \<comment> \<open>\<^verbatim>\<open>{ x: Math.round(vx / scale), y: Math.round(vy / scale) }\<close>\<close>
  "scaled scale vx vy =
     \<lparr>px = of_int (js_round (vx / scale)), py = of_int (js_round (vy / scale))\<rparr>"

definition approxPoints :: "real \<Rightarrow> contour \<Rightarrow> Point list" where
  "approxPoints scale cnt =
     map (\<lambda>(vx, vy). scaled scale (of_int vx) (of_int vy)) (approxPolyDP cnt)"

definition rectPoints :: "real \<Rightarrow> contour \<Rightarrow> Point list" where
  "rectPoints scale cnt =
     (case minAreaRect cnt of (v0, v1, v2, v3) \<Rightarrow>
        map (\<lambda>v. scaled scale (px v) (py v)) [v0, v1, v2, v3])"

text \<open>
  One iteration of the loop of \<open>findContourPoints\<close> on the pair
  \<^verbatim>\<open>(bestPoints, maxArea)\<close>:
  \<^verbatim>\<open>
  const area = cv.contourArea(cnt);
  if (area < minAreaThreshold) continue;
  ...
  if (approx.rows === 4 && area > maxArea) { maxArea = area; bestPoints = [approx points / scale]; }
  else if (area > maxArea) { bestPoints = [minAreaRect vertices / scale]; maxArea = area; }
  \<close>
\<close>

fun contourStep ::
  "real \<Rightarrow> real \<Rightarrow> contour \<Rightarrow> Point list option \<times> real \<Rightarrow> Point list option \<times> real" where
  "contourStep scale minAreaThreshold cnt (bestPoints, maxArea) =
     (let area = contourArea cnt in
      if area < minAreaThreshold then (bestPoints, maxArea)
      else if length (approxPolyDP cnt) = 4 \<and> area > maxArea
        then (Some (approxPoints scale cnt), area)
      else if area > maxArea
        then (Some (rectPoints scale cnt), area)
      else (bestPoints, maxArea))"

definition findContourPoints :: "contour list \<Rightarrow> real \<Rightarrow> real \<Rightarrow> Point list option" where
  "findContourPoints contours scale totalArea =
     (let minAreaThreshold = totalArea * 0.01;
          bestPoints = fst (fold (contourStep scale minAreaThreshold) contours (None, 0))
      in case bestPoints of None \<Rightarrow> None | Some b \<Rightarrow> Some (sortPoints b))"

text \<open>
  \<open>detectDocumentCorners\<close>: a failed wait, a failed decode and an exception in the
  \<^verbatim>\<open>try\<close> block of \<^verbatim>\<open>img.onload\<close> all \<^verbatim>\<open>resolve(null)\<close>. The image is
  resized by \<^verbatim>\<open>scale = Math.min(800 / src.rows, 800 / src.cols)\<close>, and the area
  passed on is \<^verbatim>\<open>resized.rows * resized.cols\<close>.
\<close>

definition detectDocumentCorners :: "env \<Rightarrow> image \<Rightarrow> Point list option promise" where
  "detectDocumentCorners e imageUrl =
     (case waitForCV (cvReady e) 0 300 of
        Inl err \<Rightarrow> Resolved None
      | Inr t \<Rightarrow>
         (case imgLoad e imageUrl of
            None \<Rightarrow> Resolved None
          | Some (cols, rows) \<Rightarrow>
              if cvImreadThrows e imageUrl then Resolved None
              else
                let maxDim = 800;
                    scale = min (maxDim / real rows) (maxDim / real cols);
                    totalArea = of_int (js_round (real rows * scale))
                              * of_int (js_round (real cols * scale))
                in case cvEdgeContours e imageUrl of
                     Inl err \<Rightarrow> Resolved None
                   | Inr contours \<Rightarrow>
                      (case findContourPoints contours scale totalArea of
                         Some bestPoints \<Rightarrow> Resolved (Some bestPoints)
                       | None \<Rightarrow>
                          (case cvThreshContours e imageUrl of
                             Inl err \<Rightarrow> Resolved None
                           | Inr contours2 \<Rightarrow>
                               Resolved (findContourPoints contours2 scale totalArea)))))"

text \<open>
  \<open>applyPerspectiveCrop\<close>: \<^verbatim>\<open>await waitForCV()\<close> is outside any
  \<^verbatim>\<open>try\<close>, so a failed wait rejects; \<^verbatim>\<open>img.onerror = reject\<close>; an exception
  in \<^verbatim>\<open>img.onload\<close> is caught and rejects. With fewer than four points
  \<^verbatim>\<open>sorted[2]\<close> or \<^verbatim>\<open>sorted[3]\<close> is \<^verbatim>\<open>undefined\<close> and reading its
  \<^verbatim>\<open>x\<close> raises a TypeError. The function has no other test on the points.
\<close>

definition applyPerspectiveCrop :: "env \<Rightarrow> image \<Rightarrow> Point list \<Rightarrow> image promise" where
  "applyPerspectiveCrop e imageUrl points =
     (case waitForCV (cvReady e) 0 300 of
        Inl err \<Rightarrow> Rejected err
      | Inr t \<Rightarrow>
         (case imgLoad e imageUrl of
            None \<Rightarrow> Rejected DecodeFailure
          | Some wh \<Rightarrow>
              if cvImreadThrows e imageUrl then Rejected CvError
              else if length points < 4 then Rejected TypeError
              else
                let sorted = sortPoints points;
                    widthA = hypot (px (sorted ! 2) - px (sorted ! 3))
                                   (py (sorted ! 2) - py (sorted ! 3));
                    widthB = hypot (px (sorted ! 1) - px (sorted ! 0))
                                   (py (sorted ! 1) - py (sorted ! 0));
                    targetW = max widthA widthB;
                    heightA = hypot (px (sorted ! 1) - px (sorted ! 2))
                                    (py (sorted ! 1) - py (sorted ! 2));
                    heightB = hypot (px (sorted ! 0) - px (sorted ! 3))
                                    (py (sorted ! 0) - py (sorted ! 3));
                    targetH = max heightA heightB;
                    srcCoords = [sorted ! 0, sorted ! 1, sorted ! 2, sorted ! 3];
                    dstCoords = [\<lparr>px = 0, py = 0\<rparr>, \<lparr>px = targetW, py = 0\<rparr>,
                                 \<lparr>px = targetW, py = targetH\<rparr>, \<lparr>px = 0, py = targetH\<rparr>]
                in if cvWarpThrows e imageUrl srcCoords targetW targetH then Rejected CvError
                   else Resolved (Warped imageUrl srcCoords dstCoords targetW targetH)))"

text \<open>
  \<^verbatim>\<open>
  export const autoCropImage = async (imageUrl: string): Promise<string> => {
      const corners = await detectDocumentCorners(imageUrl);
      if (!corners) return imageUrl;
      return applyPerspectiveCrop(imageUrl, corners);
  };
  \<close>
\<close>

definition autoCropImage :: "env \<Rightarrow> image \<Rightarrow> image promise" where
  "autoCropImage e imageUrl =
     (case detectDocumentCorners e imageUrl of
        Rejected err \<Rightarrow> Rejected err
      | Pending \<Rightarrow> Pending
      | Resolved None \<Rightarrow> Resolved imageUrl
      | Resolved (Some corners) \<Rightarrow> applyPerspectiveCrop e imageUrl corners)"

definition js_rem :: "int \<Rightarrow> int \<Rightarrow> int" where
  \<comment> \<open>the \<^verbatim>\<open>%\<close> of JavaScript: the sign follows the dividend\<close>
  "js_rem a b = sgn a * (\<bar>a\<bar> mod \<bar>b\<bar>)"

text \<open>
  \<open>applyImageAdjustments\<close>: \<^verbatim>\<open>img.onerror = reject\<close>; without a 2D context
  \<^verbatim>\<open>img.onload\<close> returns before \<^verbatim>\<open>resolve\<close>, so the promise never settles.
  \<^verbatim>\<open>
  const rads = (rotation % 360) * Math.PI / 180;
  const sin = Math.abs(Math.sin(rads));  const cos = Math.abs(Math.cos(rads));
  const newWidth = img.width * cos + img.height * sin;
  const newHeight = img.width * sin + img.height * cos;
  canvas.width = newWidth; canvas.height = newHeight;
  ctx.filter = `brightness(${brightness}%) contrast(${contrast}%)`;
  ctx.translate(newWidth / 2, newHeight / 2);
  ctx.rotate(rads);
  ctx.drawImage(img, -img.width / 2, -img.height / 2);
  resolve(canvas.toDataURL());
  \<close>
\<close>

definition applyImageAdjustments :: "env \<Rightarrow> image \<Rightarrow> int \<Rightarrow> int \<Rightarrow> int \<Rightarrow> image promise" where
  "applyImageAdjustments e imageUrl brightness contrast rotation =
     (case imgLoad e imageUrl of
        None \<Rightarrow> Rejected DecodeFailure
      | Some (width, height) \<Rightarrow>
          if \<not> ctx2d e then Pending
          else
            let rads = real_of_int (js_rem rotation 360) * pi / 180;
                sin' = \<bar>sin rads\<bar>;
                cos' = \<bar>cos rads\<bar>;
                newWidth = real width * cos' + real height * sin';
                newHeight = real width * sin' + real height * cos'
            in Resolved (Canvas newWidth newHeight
                 [Filter brightness contrast,
                  Translate (newWidth / 2) (newHeight / 2),
                  Rotate rads,
                  DrawImage imageUrl (- real width / 2) (- real height / 2)]))"

section \<open>components/EditorModal.tsx\<close>

datatype Tool = ToolNone | Crop | Adjust

record imgElement =
  naturalWidth :: nat
  naturalHeight :: nat
  rectWidth :: real

text \<open>
  \<open>imgElement\<close> is what the handlers read from \<^verbatim>\<open>imageRef.current\<close>:
  \<^verbatim>\<open>naturalWidth\<close>, \<^verbatim>\<open>naturalHeight\<close> and
  \<^verbatim>\<open>getBoundingClientRect().width\<close>. The editor record holds the React state
  and refs the three handlers below use; \<open>None\<close> is \<^verbatim>\<open>null\<close>.
\<close>

record editor =
  currentImage :: image
  isProcessing :: bool
  activeTool :: Tool
  points :: "Point list option"
  isDragging :: bool
  dragInfo :: "nat option"
  brightness :: int
  contrast :: int
  rotation :: int
  isPanning :: bool
  imageRef :: "imgElement option"
  containerRef :: "(real \<times> real) option"
  panStartRef :: Point
  scrollStartRef :: "real \<times> real"
  dragStartPosRef :: Point
  initialPointsRef :: "Point list option"

text \<open>
  \<^verbatim>\<open>
  const handlePerformAutoDetection = async (url: string) => {
    if (!imageRef.current) return;
    setIsProcessing(true);
    const detected = await detectDocumentCorners(url);
    if (detected) { setPoints(detected); }
    else {
      const w = imageRef.current.naturalWidth;  const h = imageRef.current.naturalHeight;
      setPoints([{ x: w * 0.1, y: h * 0.1 }, { x: w * 0.9, y: h * 0.1 },
                 { x: w * 0.9, y: h * 0.9 }, { x: w * 0.1, y: h * 0.9 }]);
    }
    setIsProcessing(false);
  };
  \<close>
\<close>

definition handlePerformAutoDetection :: "env \<Rightarrow> editor \<Rightarrow> image \<Rightarrow> editor" where
  "handlePerformAutoDetection e st url =
     (case imageRef st of
        None \<Rightarrow> st
      | Some el \<Rightarrow>
         (case detectDocumentCorners e url of
            Resolved (Some detected) \<Rightarrow> st\<lparr>points := Some detected, isProcessing := False\<rparr>
          | Resolved None \<Rightarrow>
              let w = real (naturalWidth el); h = real (naturalHeight el)
              in st\<lparr>points := Some [\<lparr>px = w * 0.1, py = h * 0.1\<rparr>, \<lparr>px = w * 0.9, py = h * 0.1\<rparr>,
                                    \<lparr>px = w * 0.9, py = h * 0.9\<rparr>, \<lparr>px = w * 0.1, py = h * 0.9\<rparr>],
                    isProcessing := False\<rparr>
          | Rejected err \<Rightarrow> st\<lparr>isProcessing := True\<rparr>
          | Pending \<Rightarrow> st\<lparr>isProcessing := True\<rparr>))"

text \<open>
  \<open>handleWindowMouseMove\<close> on a mouse event at \<open>(clientX, clientY)\<close>. Writing
  \<^verbatim>\<open>newPoints[dragInfo.index].x\<close> with an index outside the snapshot raises a
  TypeError.
\<close>

definition handleWindowMouseMove :: "editor \<Rightarrow> real \<Rightarrow> real \<Rightarrow> error + editor" where
  "handleWindowMouseMove st clientX clientY =
     (if isPanning st \<and> containerRef st \<noteq> None then
        let dx = clientX - px (panStartRef st);
            dy = clientY - py (panStartRef st)
        in Inr (st\<lparr>containerRef :=
                  Some (fst (scrollStartRef st) - dx, snd (scrollStartRef st) - dy)\<rparr>)
      else
        case (isDragging st, points st, initialPointsRef st, dragInfo st, imageRef st) of
          (True, Some pts, Some initial, Some index, Some el) \<Rightarrow>
            let rectW = rectWidth el;
                natW = real (naturalWidth el);
                scale = natW / rectW;
                dx = (clientX - px (dragStartPosRef st)) * scale;
                dy = (clientY - py (dragStartPosRef st)) * scale
            in if index < length initial then
                 Inr (st\<lparr>points := Some (initial[index :=
                   \<lparr>px = max 0 (min (real (naturalWidth el)) (px (initial ! index) + dx)),
                    py = max 0 (min (real (naturalHeight el)) (py (initial ! index) + dy))\<rparr>])\<rparr>)
               else Inl TypeError
        | _ \<Rightarrow> Inr st)"

text \<open>
  \<^verbatim>\<open>
  const handleSave = async () => {
    setIsProcessing(true);
    let finalUrl = currentImage;
    try {
      if (activeTool === 'crop' && points) {
          finalUrl = await applyPerspectiveCrop(finalUrl, points);
      } else if (brightness !== 100 || contrast !== 100 || rotation !== 0) {
          finalUrl = await applyImageAdjustments(finalUrl, brightness, contrast, rotation);
      }
      onUpdate({ ...item, url: finalUrl });
      onClose();
    } catch (err) { alert("Erro ao salvar."); } finally { setIsProcessing(false); }
  };
  \<close>
  The outcome is the URL handed to \<^verbatim>\<open>onUpdate\<close>, the alert of the
  \<^verbatim>\<open>catch\<close>, or nothing when the awaited promise never settles.
\<close>

datatype save_outcome = Saved image | SaveAlert | SaveHang

definition settle :: "image promise \<Rightarrow> save_outcome" where
  "settle p = (case p of Resolved u \<Rightarrow> Saved u | Rejected err \<Rightarrow> SaveAlert | Pending \<Rightarrow> SaveHang)"

definition handleSave :: "env \<Rightarrow> editor \<Rightarrow> save_outcome" where
  "handleSave e st =
     (let finalUrl = currentImage st in
      if activeTool st = Crop \<and> points st \<noteq> None then
        settle (applyPerspectiveCrop e finalUrl (the (points st)))
      else if brightness st \<noteq> 100 \<or> contrast st \<noteq> 100 \<or> rotation st \<noteq> 0 then
        settle (applyImageAdjustments e finalUrl (brightness st) (contrast st) (rotation st))
      else Saved finalUrl)"


section \<open>The specification's formulas\<close>

text \<open>
  The definitions of this section follow the words of the specification, not the code;
  the theorems compare the code with them. Distance and target size are those of
  section 4.1 of the specification, the area is the shoelace formula (twice the enclosed
  area, in absolute value), the target corners are those of section 4.3, the default
  quadrilateral is the 10\%--90\% inset of section 4.2.
\<close>

definition spec_dist :: "Point \<Rightarrow> Point \<Rightarrow> real" where
  "spec_dist p q = sqrt ((px p - px q)\<^sup>2 + (py p - py q)\<^sup>2)"

definition spec_targetW :: "Point \<Rightarrow> Point \<Rightarrow> Point \<Rightarrow> Point \<Rightarrow> real" where
  "spec_targetW tL tR bR bL = max (spec_dist tL tR) (spec_dist bL bR)"

definition spec_targetH :: "Point \<Rightarrow> Point \<Rightarrow> Point \<Rightarrow> Point \<Rightarrow> real" where
  "spec_targetH tL tR bR bL = max (spec_dist tL bL) (spec_dist tR bR)"

definition spec_area2 :: "Point \<Rightarrow> Point \<Rightarrow> Point \<Rightarrow> Point \<Rightarrow> real" where
  "spec_area2 a b c d =
     \<bar>(px a * py b - px b * py a) + (px b * py c - px c * py b)
      + (px c * py d - px d * py c) + (px d * py a - px a * py d)\<bar>"

definition spec_dstCoords :: "real \<Rightarrow> real \<Rightarrow> Point list" where
  "spec_dstCoords w h =
     [\<lparr>px = 0, py = 0\<rparr>, \<lparr>px = w, py = 0\<rparr>, \<lparr>px = w, py = h\<rparr>, \<lparr>px = 0, py = h\<rparr>]"

definition spec_defaultQuad :: "real \<Rightarrow> real \<Rightarrow> Point list" where
  "spec_defaultQuad w h =
     [\<lparr>px = w / 10, py = h / 10\<rparr>, \<lparr>px = 9 * w / 10, py = h / 10\<rparr>,
      \<lparr>px = 9 * w / 10, py = 9 * h / 10\<rparr>, \<lparr>px = w / 10, py = 9 * h / 10\<rparr>]"

section \<open>Notions used in the statements\<close>

text \<open>
  A quadrilateral is \<^emph>\<open>untied\<close> when its top pair lies strictly above its bottom pair,
  the top-left corner is strictly left of the top-right one and the bottom-left corner
  strictly left of the bottom-right one. These are the comparisons on which the three
  sorts of \<open>sortPoints\<close> must not tie.
\<close>

definition untied :: "Point \<Rightarrow> Point \<Rightarrow> Point \<Rightarrow> Point \<Rightarrow> bool" where
  "untied tL tR bR bL \<longleftrightarrow>
     max (py tL) (py tR) < min (py bR) (py bL) \<and> px tL < px tR \<and> px bL < px bR"

text \<open>
  For the contour search: the candidate a contour contributes (its four-vertex
  approximation when the approximation has exactly four vertices, the vertices of its
  minimum-area rotated rectangle otherwise), the contours the loop can select (area at
  least the threshold and above the initial \<^verbatim>\<open>maxArea = 0\<close>), and the first contour
  of largest area among them.
\<close>

definition candidate :: "real \<Rightarrow> contour \<Rightarrow> Point list" where
  "candidate scale cnt =
     (if length (approxPolyDP cnt) = 4 then approxPoints scale cnt else rectPoints scale cnt)"

definition qualifies :: "real \<Rightarrow> contour \<Rightarrow> bool" where
  "qualifies minAreaThreshold cnt \<longleftrightarrow>
     minAreaThreshold \<le> contourArea cnt \<and> 0 < contourArea cnt"

definition firstLargest :: "real \<Rightarrow> contour list \<Rightarrow> nat \<Rightarrow> bool" where
  "firstLargest minAreaThreshold cs i \<longleftrightarrow>
     i < length cs \<and> qualifies minAreaThreshold (cs ! i)
     \<and> (\<forall>c \<in> set cs. qualifies minAreaThreshold c \<longrightarrow> contourArea c \<le> contourArea (cs ! i))
     \<and> (\<forall>c \<in> set (take i cs). qualifies minAreaThreshold c \<longrightarrow> contourArea c < contourArea (cs ! i))"

text \<open>
  The images an image was produced from in one step (the source of a warp, the images
  drawn on a canvas), and the relation of an image to the result of at most one transform
  of it.
\<close>

fun drawnImages :: "canvas_op list \<Rightarrow> image list" where
  "drawnImages [] = []"
| "drawnImages (DrawImage i dx dy # ops) = i # drawnImages ops"
| "drawnImages (_ # ops) = drawnImages ops"

fun directSources :: "image \<Rightarrow> image list" where
  "directSources (Src s) = []"
| "directSources (Warped i srcCoords dstCoords w h) = [i]"
| "directSources (Canvas w h ops) = drawnImages ops"

definition oneStepFrom :: "image \<Rightarrow> image \<Rightarrow> bool" where
  "oneStepFrom cur v \<longleftrightarrow> v = cur \<or> directSources v = [cur]"

text \<open>
  The 2D context keeps a current transformation: after \<^verbatim>\<open>translate\<close> and
  \<^verbatim>\<open>rotate\<close>, a point of user space is rotated first and translated second.
  \<open>userToCanvas ops\<close> maps a point of user space to the canvas under the calls \<open>ops\<close>,
  \<open>canvasToUser ops\<close> maps back.
\<close>

fun transformPoint :: "canvas_op \<Rightarrow> real \<times> real \<Rightarrow> real \<times> real" where
  "transformPoint (Translate tx ty) (x, y) = (x + tx, y + ty)"
| "transformPoint (Rotate a) (x, y) = (x * cos a - y * sin a, x * sin a + y * cos a)"
| "transformPoint _ (x, y) = (x, y)"

fun untransformPoint :: "canvas_op \<Rightarrow> real \<times> real \<Rightarrow> real \<times> real" where
  "untransformPoint (Translate tx ty) (x, y) = (x - tx, y - ty)"
| "untransformPoint (Rotate a) (x, y) = (x * cos a + y * sin a, y * cos a - x * sin a)"
| "untransformPoint _ (x, y) = (x, y)"

definition userToCanvas :: "canvas_op list \<Rightarrow> real \<times> real \<Rightarrow> real \<times> real" where
  "userToCanvas ops p = foldr transformPoint ops p"

definition canvasToUser :: "canvas_op list \<Rightarrow> real \<times> real \<Rightarrow> real \<times> real" where
  "canvasToUser ops q = fold untransformPoint ops q"


section \<open>Example inputs\<close>

text \<open>
  An environment in which the engine is loaded at the first poll, every URL decodes to a
  100 by 100 image, no engine call raises, no contour is found and the canvas has a 2D
  context; and its variants with one failure each: the engine never loads, the URL does
  not decode, \<^verbatim>\<open>cv.imread\<close> raises, the edge stage raises, the threshold stage
  raises; and the variant in which every URL decodes to a 200 by 100 image.
\<close>

definition env_ok :: env where
  "env_ok = \<lparr>cvReady = (\<lambda>k. True), imgLoad = (\<lambda>u. Some (100, 100)),
     cvImreadThrows = (\<lambda>u. False), cvEdgeContours = (\<lambda>u. Inr []),
     cvThreshContours = (\<lambda>u. Inr []), cvWarpThrows = (\<lambda>u q w h. False), ctx2d = True\<rparr>"

definition env_never_ready :: env where
  "env_never_ready = env_ok\<lparr>cvReady := (\<lambda>k. False)\<rparr>"

definition env_no_decode :: env where
  "env_no_decode = env_ok\<lparr>imgLoad := (\<lambda>u. None)\<rparr>"

definition env_imread_throws :: env where
  "env_imread_throws = env_ok\<lparr>cvImreadThrows := (\<lambda>u. True)\<rparr>"

definition env_edge_throws :: env where
  "env_edge_throws = env_ok\<lparr>cvEdgeContours := (\<lambda>u. Inl CvError)\<rparr>"

definition env_thresh_throws :: env where
  "env_thresh_throws = env_ok\<lparr>cvThreshContours := (\<lambda>u. Inl CvError)\<rparr>"

definition env_wide :: env where
  "env_wide = env_ok\<lparr>imgLoad := (\<lambda>u. Some (200, 100))\<rparr>"

text \<open>
  Two contours: a square of area 100 whose approximation has four vertices, and a
  five-vertex blob of area 200.
\<close>

definition quadContour :: contour where
  "quadContour = \<lparr>contourArea = 100,
     approxPolyDP = [(0, 0), (10, 0), (10, 10), (0, 10)],
     minAreaRect = (\<lparr>px = 0, py = 0\<rparr>, \<lparr>px = 10, py = 0\<rparr>, \<lparr>px = 10, py = 10\<rparr>, \<lparr>px = 0, py = 10\<rparr>)\<rparr>"

definition blobContour :: contour where
  "blobContour = \<lparr>contourArea = 200,
     approxPolyDP = [(20, 0), (40, 0), (45, 5), (40, 10), (20, 10)],
     minAreaRect = (\<lparr>px = 20, py = 0\<rparr>, \<lparr>px = 45, py = 0\<rparr>, \<lparr>px = 45, py = 10\<rparr>, \<lparr>px = 20, py = 10\<rparr>)\<rparr>"

text \<open>
  The editor as \<^verbatim>\<open>useEffect\<close> resets it on opening, on a 100 by 100 image
  displayed 50 pixels wide, and states reached from it: the crop tool with a quadrilateral
  and a pending brightness of 150; the adjust tool with a rotation of 360; the adjust tool
  with all defaults; a drag of corner 2 started at screen position (45,45).
\<close>

definition editor0 :: editor where
  "editor0 = \<lparr>currentImage = Src ''page'', isProcessing = False, activeTool = Crop,
     points = None, isDragging = False, dragInfo = None,
     brightness = 100, contrast = 100, rotation = 0, isPanning = False,
     imageRef = Some \<lparr>naturalWidth = 100, naturalHeight = 100, rectWidth = 50\<rparr>,
     containerRef = Some (0, 0), panStartRef = \<lparr>px = 0, py = 0\<rparr>, scrollStartRef = (0, 0),
     dragStartPosRef = \<lparr>px = 0, py = 0\<rparr>, initialPointsRef = None\<rparr>"

definition editor_crop :: editor where
  "editor_crop = editor0\<lparr>brightness := 150,
     points := Some [\<lparr>px = 0, py = 0\<rparr>, \<lparr>px = 4, py = 0\<rparr>, \<lparr>px = 4, py = 3\<rparr>, \<lparr>px = 0, py = 3\<rparr>]\<rparr>"

definition editor_adjust :: editor where
  "editor_adjust = editor0\<lparr>activeTool := Adjust, rotation := 360\<rparr>"

definition editor_plain :: editor where
  "editor_plain = editor0\<lparr>activeTool := Adjust\<rparr>"

definition editor_drag :: editor where
  "editor_drag = editor0\<lparr>isDragging := True, dragInfo := Some 2,
     points := Some [\<lparr>px = 10, py = 10\<rparr>, \<lparr>px = 90, py = 10\<rparr>, \<lparr>px = 90, py = 90\<rparr>, \<lparr>px = 10, py = 90\<rparr>],
     initialPointsRef := Some [\<lparr>px = 10, py = 10\<rparr>, \<lparr>px = 90, py = 10\<rparr>, \<lparr>px = 90, py = 90\<rparr>, \<lparr>px = 10, py = 90\<rparr>],
     dragStartPosRef := \<lparr>px = 45, py = 45\<rparr>\<rparr>"

section \<open>Supporting lemmas\<close>

subsection \<open>Facts about the ordering\<close>

lemma mset_two_cases:
  assumes "mset xs = {#a, b#}"
  shows "xs = [a, b] \<or> xs = [b, a]"
proof -
  from assms have len: "length xs = 2"
    by (metis size_mset size_add_mset size_empty numeral_2_eq_2)
  then obtain u v where xs: "xs = [u, v]"
    by (metis (no_types, opaque_lifting) One_nat_def Suc_1 length_0_conv length_Suc_conv)
  with assms have "{#u, v#} = {#a, b#}" by simp
  then have "(u = a \<and> v = b) \<or> (u = b \<and> v = a)"
    by (auto simp: add_eq_conv_ex)
  with xs show ?thesis by auto
qed

lemma sorted_filter_less_take:
  assumes "sorted (map f xs)"
  shows "filter (\<lambda>p. f p < m) xs = take (length (filter (\<lambda>p. f p < m) xs)) xs"
  using assms
proof (induction xs)
  case Nil
  then show ?case by simp
next
  case (Cons a xs)
  show ?case
  proof (cases "f a < m")
    case True
    with Cons show ?thesis by simp
  next
    case False
    with Cons.prems have "\<forall>p \<in> set xs. \<not> f p < m" by fastforce
    then have "filter (\<lambda>p. f p < m) xs = []" by (simp add: filter_empty_conv)
    with False show ?thesis by simp
  qed
qed

lemma sorted_filter_ge_drop:
  assumes "sorted (map f xs)"
  shows "filter (\<lambda>p. \<not> f p < m) xs = drop (length (filter (\<lambda>p. f p < m) xs)) xs"
  using assms
proof (induction xs)
  case Nil
  then show ?case by simp
next
  case (Cons a xs)
  show ?case
  proof (cases "f a < m")
    case True
    with Cons show ?thesis by simp
  next
    case False
    with Cons.prems have "\<forall>p \<in> set xs. \<not> f p < m" by fastforce
    then have "filter (\<lambda>p. f p < m) xs = []" "filter (\<lambda>p. \<not> f p < m) xs = xs"
      by (simp_all add: filter_empty_conv)
    with False show ?thesis by simp
  qed
qed

lemma sortPoints_canonical:
  assumes u: "untied tL tR bR bL"
    and m: "mset qs = mset [tL, tR, bR, bL]"
  shows "sortPoints qs = [tL, tR, bR, bL]"
proof -
  define s where "s = sort_key py qs"
  define c where "c = min (py bR) (py bL)"
  have ms: "mset s = {#tL, tR, bR, bL#}" using m by (simp add: s_def)
  have srt: "sorted (map py s)" by (simp add: s_def)
  from u have lt: "py tL < c" "py tR < c" "\<not> py bR < c" "\<not> py bL < c"
    by (auto simp: untied_def c_def)
  have "mset (filter (\<lambda>p. py p < c) s) = filter_mset (\<lambda>p. py p < c) (mset s)"
    by simp
  also have "\<dots> = {#tL, tR#}" using lt by (simp add: ms)
  finally have ftop: "mset (filter (\<lambda>p. py p < c) s) = {#tL, tR#}" .
  then have len: "length (filter (\<lambda>p. py p < c) s) = 2"
    by (metis size_mset size_add_mset size_empty numeral_2_eq_2)
  have "mset (filter (\<lambda>p. \<not> py p < c) s) = filter_mset (\<lambda>p. \<not> py p < c) (mset s)"
    by simp
  also have "\<dots> = {#bR, bL#}" using lt by (simp add: ms)
  finally have fbot: "mset (filter (\<lambda>p. \<not> py p < c) s) = {#bR, bL#}" .
  have top: "mset (take 2 s) = {#tL, tR#}"
    using sorted_filter_less_take [OF srt, of c] ftop len by simp
  have bot: "mset (drop 2 s) = {#bR, bL#}"
    using sorted_filter_ge_drop [OF srt, of c] fbot len by simp
  from bot have "length (drop 2 s) = 2"
    by (metis size_mset size_add_mset size_empty numeral_2_eq_2)
  then have bot': "mset (take 2 (drop 2 s)) = {#bR, bL#}" using bot by simp
  from u have x: "px tL < px tR" "px bL < px bR" by (auto simp: untied_def)
  have t: "sort_key px (take 2 s) = [tL, tR]"
    using mset_two_cases [OF top] x by auto
  have b: "sort_key (\<lambda>p. - px p) (take 2 (drop 2 s)) = [bR, bL]"
    using mset_two_cases [OF bot'] x by auto
  show ?thesis
    unfolding sortPoints_def Let_def s_def [symmetric] t b by simp
qed

lemma length4_nth: "length xs = 4 \<Longrightarrow> xs = [xs ! 0, xs ! 1, xs ! 2, xs ! 3]"
  by (auto simp: list_eq_iff_nth_eq numeral_eq_Suc less_Suc_eq)

lemma length2_nth: "length xs = 2 \<Longrightarrow> xs = [xs ! 0, xs ! 1]"
  by (auto simp: list_eq_iff_nth_eq numeral_eq_Suc less_Suc_eq)

lemma sortPoints_append:
  assumes "4 \<le> length pts"
  shows "sortPoints pts = sort_key px (take 2 (sort_key py pts))
           @ sort_key (\<lambda>p. - px p) (take 2 (drop 2 (sort_key py pts)))"
proof -
  let ?s = "sort_key py pts"
  have "length (sort_key px (take 2 ?s)) = 2"
       "length (sort_key (\<lambda>p. - px p) (take 2 (drop 2 ?s))) = 2"
    using assms by simp_all
  from length2_nth [OF this(1)] length2_nth [OF this(2)]
  show ?thesis unfolding sortPoints_def Let_def by (metis append_Cons append_Nil)
qed

lemma untied_exists:
  assumes len: "length ps = 4"
    and dx: "distinct (map px ps)" and dy: "distinct (map py ps)"
  shows "\<exists>tL tR bR bL. untied tL tR bR bL \<and> mset [tL, tR, bR, bL] = mset ps"
proof -
  define s where "s = sort_key py ps"
  have ms: "mset s = mset ps" by (simp add: s_def)
  have "length s = 4" using len by (simp add: s_def)
  then obtain a b c d where s: "s = [a, b, c, d]"
    using length4_nth by blast
  have "sorted (map py s)" by (simp add: s_def)
  moreover have "distinct (map py s)"
    using dy ms by (metis mset_map mset_eq_imp_distinct_iff)
  ultimately have y: "py a < py b" "py b < py c" "py c < py d"
    by (auto simp: s)
  have "distinct (map px s)"
    using dx ms by (metis mset_map mset_eq_imp_distinct_iff)
  then have x: "px a \<noteq> px b" "px c \<noteq> px d" by (auto simp: s)
  have m: "mset ps = {#a, b, c, d#}" using ms s by simp
  consider "px a < px b" "px c < px d" | "px a < px b" "px d < px c"
    | "px b < px a" "px c < px d" | "px b < px a" "px d < px c"
    using x by linarith
  then show ?thesis
  proof cases
    case 1
    then have "untied a b d c \<and> mset [a, b, d, c] = mset ps"
      using y m by (simp add: untied_def)
    then show ?thesis by blast
  next
    case 2
    then have "untied a b c d \<and> mset [a, b, c, d] = mset ps"
      using y m by (simp add: untied_def)
    then show ?thesis by blast
  next
    case 3
    then have "untied b a d c \<and> mset [b, a, d, c] = mset ps"
      using y m by (simp add: untied_def)
    then show ?thesis by blast
  next
    case 4
    then have "untied b a c d \<and> mset [b, a, c, d] = mset ps"
      using y m by (simp add: untied_def)
    then show ?thesis by blast
  qed
qed

subsection \<open>The rectifier\<close>

lemma waitForCV_ready_now: "ready t \<Longrightarrow> waitForCV ready t n = Inr t"
  by (simp add: waitForCV.simps)

lemma hypot_spec_dist: "hypot (px p - px q) (py p - py q) = spec_dist p q"
  by (simp add: hypot_def spec_dist_def)

lemma spec_dist_commute: "spec_dist p q = spec_dist q p"
  by (simp add: spec_dist_def power2_commute)

lemma spec_dist_nonneg: "0 \<le> spec_dist p q"
  by (simp add: spec_dist_def)

lemma spec_dist_eq_0: "spec_dist p q = 0 \<longleftrightarrow> px p = px q \<and> py p = py q"
  by (simp add: spec_dist_def sum_power2_eq_zero_iff)

lemma spec_dist_horizontal: "py p = py q \<Longrightarrow> spec_dist p q = \<bar>px p - px q\<bar>"
  by (simp add: spec_dist_def)

lemma spec_dist_vertical: "px p = px q \<Longrightarrow> spec_dist p q = \<bar>py p - py q\<bar>"
  by (simp add: spec_dist_def)

lemma Warped_neq_self: "Warped u a b c d \<noteq> u"
proof
  assume "Warped u a b c d = u"
  then have "size (Warped u a b c d) = size u" by simp
  then show False by simp
qed

lemma applyPerspectiveCrop_sorted:
  assumes rdy: "waitForCV (cvReady e) 0 300 = Inr t"
    and ld: "imgLoad e u = Some wh"
    and rd: "\<not> cvImreadThrows e u"
    and len: "4 \<le> length pts"
    and sp: "sortPoints pts = [tL, tR, bR, bL]"
  shows "applyPerspectiveCrop e u pts =
     (if cvWarpThrows e u [tL, tR, bR, bL] (spec_targetW tL tR bR bL) (spec_targetH tL tR bR bL)
      then Rejected CvError
      else Resolved (Warped u [tL, tR, bR, bL]
             (spec_dstCoords (spec_targetW tL tR bR bL) (spec_targetH tL tR bR bL))
             (spec_targetW tL tR bR bL) (spec_targetH tL tR bR bL)))"
proof -
  have w: "max (hypot (px bR - px bL) (py bR - py bL)) (hypot (px tR - px tL) (py tR - py tL))
        = spec_targetW tL tR bR bL"
    by (simp add: hypot_spec_dist spec_targetW_def spec_dist_commute max.commute)
  have h: "max (hypot (px tR - px bR) (py tR - py bR)) (hypot (px tL - px bL) (py tL - py bL))
        = spec_targetH tL tR bR bL"
    by (simp add: hypot_spec_dist spec_targetH_def max.commute)
  from len have nl: "\<not> length pts < 4" by simp
  show ?thesis
    unfolding applyPerspectiveCrop_def rdy ld sp
    by (simp add: rd nl Let_def w h spec_dstCoords_def)
qed

lemma applyPerspectiveCrop_cong:
  assumes "4 \<le> length ps" and "4 \<le> length qs" and "sortPoints ps = sortPoints qs"
  shows "applyPerspectiveCrop e u ps = applyPerspectiveCrop e u qs"
proof -
  from assms have n: "\<not> length ps < 4" "\<not> length qs < 4" by simp_all
  show ?thesis unfolding applyPerspectiveCrop_def assms(3) by (simp only: n)
qed

lemma applyPerspectiveCrop_not_input: "applyPerspectiveCrop e u pts \<noteq> Resolved u"
  by (simp add: applyPerspectiveCrop_def Let_def Warped_neq_self split: sum.split option.split)

lemma sortPoints_shape: "\<exists>a b c d. sortPoints pts = [a, b, c, d]"
  by (simp add: sortPoints_def Let_def)

lemma spec_targetW_pos:
  assumes "0 < spec_area2 tL tR bR bL"
  shows "0 < spec_targetW tL tR bR bL"
proof (rule ccontr)
  assume "\<not> 0 < spec_targetW tL tR bR bL"
  then have "spec_dist tL tR \<le> 0" "spec_dist bL bR \<le> 0"
    by (simp_all add: spec_targetW_def)
  with spec_dist_nonneg [of tL tR] spec_dist_nonneg [of bL bR]
  have "spec_dist tL tR = 0" "spec_dist bL bR = 0" by linarith+
  then have "px tL = px tR" "py tL = py tR" "px bL = px bR" "py bL = py bR"
    by (simp_all add: spec_dist_eq_0)
  then have "spec_area2 tL tR bR bL = 0" by (simp add: spec_area2_def)
  with assms show False by simp
qed

lemma spec_targetH_pos:
  assumes "0 < spec_area2 tL tR bR bL"
  shows "0 < spec_targetH tL tR bR bL"
proof (rule ccontr)
  assume "\<not> 0 < spec_targetH tL tR bR bL"
  then have "spec_dist tL bL \<le> 0" "spec_dist tR bR \<le> 0"
    by (simp_all add: spec_targetH_def)
  with spec_dist_nonneg [of tL bL] spec_dist_nonneg [of tR bR]
  have "spec_dist tL bL = 0" "spec_dist tR bR = 0" by linarith+
  then have "px tL = px bL" "py tL = py bL" "px tR = px bR" "py tR = py bR"
    by (simp_all add: spec_dist_eq_0)
  then have "spec_area2 tL tR bR bL = 0" by (simp add: spec_area2_def)
  with assms show False by simp
qed

lemma sqrt_289: "sqrt 289 = 17" by (rule real_sqrt_unique) simp_all

lemma sqrt_100: "sqrt 100 = 10" by (rule real_sqrt_unique) simp_all

lemma env_ok_ready: "waitForCV (cvReady env_ok) 0 300 = Inr 0"
  by (simp add: env_ok_def waitForCV_ready_now)

subsection \<open>The contour search\<close>

lemma contourStep_eq:
  "contourStep scale thr cnt (b, m) =
     (if thr \<le> contourArea cnt \<and> m < contourArea cnt
      then (Some (candidate scale cnt), contourArea cnt) else (b, m))"
  by (simp add: candidate_def Let_def not_less)

declare contourStep.simps [simp del]

lemma fold_contourStep:
  "(if \<forall>c \<in> set cs. \<not> qualifies thr c
    then fold (contourStep scale thr) cs (None, 0) = (None, 0)
    else \<exists>i. firstLargest thr cs i
           \<and> fold (contourStep scale thr) cs (None, 0)
               = (Some (candidate scale (cs ! i)), contourArea (cs ! i)))"
proof (induction cs rule: rev_induct)
  case Nil
  then show ?case by simp
next
  case (snoc x cs)
  let ?R = "fold (contourStep scale thr) cs (None, 0)"
  show ?case
  proof (cases "\<forall>c \<in> set cs. \<not> qualifies thr c")
    case True
    with snoc have R: "?R = (None, 0)" by simp
    show ?thesis
    proof (cases "qualifies thr x")
      case q: True
      have "firstLargest thr (cs @ [x]) (length cs)"
        using True q by (auto simp: firstLargest_def nth_append)
      moreover have "fold (contourStep scale thr) (cs @ [x]) (None, 0)
          = (Some (candidate scale x), contourArea x)"
        using q by (simp add: R contourStep_eq qualifies_def)
      ultimately have "\<exists>j. firstLargest thr (cs @ [x]) j
           \<and> fold (contourStep scale thr) (cs @ [x]) (None, 0)
               = (Some (candidate scale ((cs @ [x]) ! j)), contourArea ((cs @ [x]) ! j))"
        by (intro exI [of _ "length cs"]) simp
      moreover have ex: "\<not> (\<forall>c \<in> set (cs @ [x]). \<not> qualifies thr c)" using q by simp
      ultimately show ?thesis unfolding if_not_P [OF ex] by blast
    next
      case q: False
      then have "\<not> (thr \<le> contourArea x \<and> 0 < contourArea x)"
        by (simp add: qualifies_def)
      then have f: "fold (contourStep scale thr) (cs @ [x]) (None, 0) = (None, 0)"
        by (simp add: R contourStep_eq)
      have a: "\<forall>c \<in> set (cs @ [x]). \<not> qualifies thr c" using True q by simp
      show ?thesis unfolding if_P [OF a] by (fact f)
    qed
  next
    case False
    with snoc obtain i where fl: "firstLargest thr cs i"
      and R: "?R = (Some (candidate scale (cs ! i)), contourArea (cs ! i))"
      by auto
    from fl have i: "i < length cs" and qi: "qualifies thr (cs ! i)"
      and mx: "\<And>c. c \<in> set cs \<Longrightarrow> qualifies thr c \<Longrightarrow> contourArea c \<le> contourArea (cs ! i)"
      and fs: "\<And>c. c \<in> set (take i cs) \<Longrightarrow> qualifies thr c \<Longrightarrow> contourArea c < contourArea (cs ! i)"
      by (auto simp: firstLargest_def)
    from False have ex: "\<not> (\<forall>c \<in> set (cs @ [x]). \<not> qualifies thr c)" by auto
    show ?thesis
    proof (cases "thr \<le> contourArea x \<and> contourArea (cs ! i) < contourArea x")
      case big: True
      with qi have qx: "qualifies thr x" by (auto simp: qualifies_def)
      have "firstLargest thr (cs @ [x]) (length cs)"
        using big qx mx by (fastforce simp: firstLargest_def nth_append)
      moreover have "fold (contourStep scale thr) (cs @ [x]) (None, 0)
          = (Some (candidate scale x), contourArea x)"
        using big by (simp add: R contourStep_eq)
      ultimately have "\<exists>j. firstLargest thr (cs @ [x]) j
           \<and> fold (contourStep scale thr) (cs @ [x]) (None, 0)
               = (Some (candidate scale ((cs @ [x]) ! j)), contourArea ((cs @ [x]) ! j))"
        by (intro exI [of _ "length cs"]) simp
      then show ?thesis unfolding if_not_P [OF ex] by blast
    next
      case small: False
      then have qx: "qualifies thr x \<Longrightarrow> contourArea x \<le> contourArea (cs ! i)"
        by (auto simp: qualifies_def)
      have "firstLargest thr (cs @ [x]) i"
        using i qi mx fs qx by (auto simp: firstLargest_def nth_append)
      moreover have "fold (contourStep scale thr) (cs @ [x]) (None, 0)
          = (Some (candidate scale (cs ! i)), contourArea (cs ! i))"
        using small by (simp add: R contourStep_eq)
      ultimately have "\<exists>j. firstLargest thr (cs @ [x]) j
           \<and> fold (contourStep scale thr) (cs @ [x]) (None, 0)
               = (Some (candidate scale ((cs @ [x]) ! j)), contourArea ((cs @ [x]) ! j))"
        using i by (intro exI [of _ i]) (simp add: nth_append)
      then show ?thesis unfolding if_not_P [OF ex] by blast
    qed
  qed
qed

lemma findContourPoints_thr:
  assumes thr: "thr = totalArea * 0.01"
  shows "((\<forall>c \<in> set cs. \<not> qualifies thr c) \<longrightarrow> findContourPoints cs scale totalArea = None)
   \<and> ((\<exists>c \<in> set cs. qualifies thr c) \<longrightarrow>
       (\<exists>i. firstLargest thr cs i
          \<and> findContourPoints cs scale totalArea = Some (sortPoints (candidate scale (cs ! i)))))"
proof -
  have f: "findContourPoints cs scale totalArea
      = (case fst (fold (contourStep scale thr) cs (None, 0)) of
           None \<Rightarrow> None | Some b \<Rightarrow> Some (sortPoints b))"
    unfolding findContourPoints_def Let_def thr ..
  show ?thesis
  proof (cases "\<forall>c \<in> set cs. \<not> qualifies thr c")
    case True
    with fold_contourStep [of cs thr scale]
    have "fold (contourStep scale thr) cs (None, 0) = (None, 0)" by simp
    then have "findContourPoints cs scale totalArea = None" by (simp add: f)
    with True show ?thesis by simp
  next
    case False
    with fold_contourStep [of cs thr scale]
    obtain i where fl: "firstLargest thr cs i"
      and R: "fold (contourStep scale thr) cs (None, 0)
                = (Some (candidate scale (cs ! i)), contourArea (cs ! i))"
      by auto
    from R have "findContourPoints cs scale totalArea = Some (sortPoints (candidate scale (cs ! i)))"
      by (simp add: f)
    with fl False show ?thesis by auto
  qed
qed

subsection \<open>Detection\<close>

lemma waitForCV_never_ready:
  "0 \<le> n \<Longrightarrow> (\<forall>k \<le> nat n. \<not> ready (t + k)) \<Longrightarrow> waitForCV ready t n = Inl EngineUnavailable"
proof (induction ready t n rule: waitForCV.induct)
  case (1 ready t retries)
  from "1.prems"(2) have nr: "\<not> ready t" by (metis add.right_neutral le0)
  show ?case
  proof (cases "retries \<le> 0")
    case True
    with nr show ?thesis by (simp add: waitForCV.simps)
  next
    case False
    have "\<forall>k \<le> nat (retries - 1). \<not> ready (Suc t + k)"
    proof (intro allI impI)
      fix k assume "k \<le> nat (retries - 1)"
      with False have "Suc k \<le> nat retries" by linarith
      with "1.prems"(2) have "\<not> ready (t + Suc k)" by blast
      then show "\<not> ready (Suc t + k)" by simp
    qed
    with "1.IH" [OF nr False] False have "waitForCV ready (Suc t) (retries - 1) = Inl EngineUnavailable"
      by simp
    with nr False show ?thesis by (subst waitForCV.simps) simp
  qed
qed

lemma detectDocumentCorners_resolves: "\<exists>r. detectDocumentCorners e u = Resolved r"
  by (simp add: detectDocumentCorners_def Let_def split: sum.split option.split prod.split)

lemma findContourPoints_Nil: "findContourPoints [] scale totalArea = None"
  by (simp add: findContourPoints_def)

lemma detect_env_ok: "detectDocumentCorners env_ok (Src ''page'') = Resolved None"
  unfolding detectDocumentCorners_def env_ok_ready
  by (simp add: env_ok_def Let_def findContourPoints_Nil)

subsection \<open>Saving and dragging\<close>

lemma applyPerspectiveCrop_oneStep:
  "applyPerspectiveCrop e u pts = Resolved v \<Longrightarrow> directSources v = [u]"
  by (auto simp: applyPerspectiveCrop_def Let_def split: sum.splits option.splits if_splits)

lemma applyImageAdjustments_oneStep:
  "applyImageAdjustments e u b c r = Resolved v \<Longrightarrow> directSources v = [u]"
  by (auto simp: applyImageAdjustments_def Let_def split: option.splits if_splits)

lemma settle_Saved: "settle p = Saved v \<longleftrightarrow> p = Resolved v"
  by (cases p) (simp_all add: settle_def)

lemma clamp_range: "0 \<le> w \<Longrightarrow> 0 \<le> max 0 (min w v) \<and> max 0 (min w v) \<le> (w::real)"
  by auto

subsection \<open>Rotation\<close>

lemma canvasToUser_userToCanvas: "canvasToUser ops (userToCanvas ops p) = p"
proof (induction ops arbitrary: p)
  case Nil
  then show ?case by (simp add: canvasToUser_def userToCanvas_def)
next
  case (Cons a ops)
  obtain x y where q: "foldr transformPoint ops p = (x, y)" by (cases "foldr transformPoint ops p")
  have inv: "untransformPoint a (transformPoint a (x, y)) = (x, y)"
  proof (cases a)
    case (Rotate t)
    have sc: "cos t * cos t + sin t * sin t = 1"
      using sin_cos_squared_add2 [of t] by (simp add: power2_eq_square)
    have "(x * cos t - y * sin t) * cos t + (x * sin t + y * cos t) * sin t
        = x * (cos t * cos t + sin t * sin t)"
      by (simp only: algebra_simps)
    also have "\<dots> = x" by (simp only: sc mult_1_right)
    finally have e1: "(x * cos t - y * sin t) * cos t + (x * sin t + y * cos t) * sin t = x" .
    have "(x * sin t + y * cos t) * cos t - (x * cos t - y * sin t) * sin t
        = y * (cos t * cos t + sin t * sin t)"
      by (simp only: algebra_simps)
    also have "\<dots> = y" by (simp only: sc mult_1_right)
    finally have e2: "(x * sin t + y * cos t) * cos t - (x * cos t - y * sin t) * sin t = y" .
    show ?thesis unfolding Rotate transformPoint.simps untransformPoint.simps e1 e2 ..
  qed simp_all
  from Cons.IH [of p] have "fold untransformPoint ops (x, y) = p"
    by (simp add: canvasToUser_def userToCanvas_def q)
  then show ?case
    by (simp add: canvasToUser_def userToCanvas_def q inv)
qed

lemma rot_bound:
  fixes x y w h c s :: real
  assumes "\<bar>x\<bar> \<le> w / 2" and "\<bar>y\<bar> \<le> h / 2"
  shows "\<bar>x * c - y * s\<bar> \<le> (w * \<bar>c\<bar> + h * \<bar>s\<bar>) / 2"
    and "\<bar>x * s + y * c\<bar> \<le> (w * \<bar>s\<bar> + h * \<bar>c\<bar>) / 2"
proof -
  have a: "\<bar>x * c\<bar> \<le> w / 2 * \<bar>c\<bar>" "\<bar>y * s\<bar> \<le> h / 2 * \<bar>s\<bar>"
    "\<bar>x * s\<bar> \<le> w / 2 * \<bar>s\<bar>" "\<bar>y * c\<bar> \<le> h / 2 * \<bar>c\<bar>"
    unfolding abs_mult
    by (rule mult_right_mono [OF assms(1) abs_ge_zero] mult_right_mono [OF assms(2) abs_ge_zero])+
  have "\<bar>x * c - y * s\<bar> \<le> \<bar>x * c\<bar> + \<bar>y * s\<bar>" by (rule abs_triangle_ineq4)
  with a show "\<bar>x * c - y * s\<bar> \<le> (w * \<bar>c\<bar> + h * \<bar>s\<bar>) / 2" by (simp add: field_simps)
  have "\<bar>x * s + y * c\<bar> \<le> \<bar>x * s\<bar> + \<bar>y * c\<bar>" by (rule abs_triangle_ineq)
  with a show "\<bar>x * s + y * c\<bar> \<le> (w * \<bar>s\<bar> + h * \<bar>c\<bar>) / 2" by (simp add: field_simps)
qed

lemma applyImageAdjustments_resolved:
  assumes "imgLoad e u = Some (w, h)" and "ctx2d e"
  shows "applyImageAdjustments e u b c r =
     Resolved (Canvas
       (real w * \<bar>cos (real_of_int (js_rem r 360) * pi / 180)\<bar>
          + real h * \<bar>sin (real_of_int (js_rem r 360) * pi / 180)\<bar>)
       (real w * \<bar>sin (real_of_int (js_rem r 360) * pi / 180)\<bar>
          + real h * \<bar>cos (real_of_int (js_rem r 360) * pi / 180)\<bar>)
       [Filter b c,
        Translate ((real w * \<bar>cos (real_of_int (js_rem r 360) * pi / 180)\<bar>
          + real h * \<bar>sin (real_of_int (js_rem r 360) * pi / 180)\<bar>) / 2)
                  ((real w * \<bar>sin (real_of_int (js_rem r 360) * pi / 180)\<bar>
          + real h * \<bar>cos (real_of_int (js_rem r 360) * pi / 180)\<bar>) / 2),
        Rotate (real_of_int (js_rem r 360) * pi / 180),
        DrawImage u (- real w / 2) (- real h / 2)])"
  using assms by (simp add: applyImageAdjustments_def Let_def)

lemma js_rem_quarter: "90 dvd r \<Longrightarrow> \<exists>k. js_rem r 360 = 90 * k"
proof -
  assume "90 dvd r"
  then have "90 dvd \<bar>r\<bar>" by simp
  moreover have "(90::int) dvd 360" by simp
  ultimately have "90 dvd \<bar>r\<bar> mod 360" by (simp add: dvd_mod)
  then have "90 dvd sgn r * (\<bar>r\<bar> mod \<bar>360\<bar>)" by simp
  then show ?thesis by (auto simp: js_rem_def dvd_def)
qed

lemma quarter_turn_cases:
  fixes k :: int and t :: real
  assumes t_def: "t = real_of_int (90 * k) * pi / 180"
  shows "(\<bar>cos t\<bar> = 1 \<and> sin t = 0) \<or> (cos t = 0 \<and> \<bar>sin t\<bar> = 1)"
proof (cases "even k")
  case True
  then obtain m where k: "k = 2 * m" by (auto elim: evenE)
  have t: "t = pi * of_int m" by (simp add: t_def k)
  show ?thesis unfolding t by (simp add: cos_npi_int)
next
  case False
  then obtain m where k: "k = 2 * m + 1" by (auto elim: oddE)
  have t: "t = pi * of_int m + pi / 2" by (simp add: t_def k field_simps)
  show ?thesis unfolding t by (simp add: cos_add sin_add cos_npi_int)
qed

lemma quarter_turn_cover:
  fixes c s w h cx cy :: real
  assumes q: "(\<bar>c\<bar> = 1 \<and> s = 0) \<or> (c = 0 \<and> \<bar>s\<bar> = 1)"
    and x: "0 \<le> cx" "cx \<le> w * \<bar>c\<bar> + h * \<bar>s\<bar>"
    and y: "0 \<le> cy" "cy \<le> w * \<bar>s\<bar> + h * \<bar>c\<bar>"
  shows "\<bar>(cx - (w * \<bar>c\<bar> + h * \<bar>s\<bar>) / 2) * c + (cy - (w * \<bar>s\<bar> + h * \<bar>c\<bar>) / 2) * s\<bar> \<le> w / 2"
    and "\<bar>(cy - (w * \<bar>s\<bar> + h * \<bar>c\<bar>) / 2) * c - (cx - (w * \<bar>c\<bar> + h * \<bar>s\<bar>) / 2) * s\<bar> \<le> h / 2"
proof -
  from q consider "c = 1" "s = 0" | "c = - 1" "s = 0" | "c = 0" "s = 1" | "c = 0" "s = - 1"
    by (auto simp: abs_if split: if_splits)
  then have "\<bar>(cx - (w * \<bar>c\<bar> + h * \<bar>s\<bar>) / 2) * c + (cy - (w * \<bar>s\<bar> + h * \<bar>c\<bar>) / 2) * s\<bar> \<le> w / 2
     \<and> \<bar>(cy - (w * \<bar>s\<bar> + h * \<bar>c\<bar>) / 2) * c - (cx - (w * \<bar>c\<bar> + h * \<bar>s\<bar>) / 2) * s\<bar> \<le> h / 2"
  proof cases
    case 1
    with x y show ?thesis by (auto simp: abs_if)
  next
    case 2
    with x y show ?thesis by (auto simp: abs_if)
  next
    case 3
    with x y show ?thesis by (auto simp: abs_if)
  next
    case 4
    with x y show ?thesis by (auto simp: abs_if)
  qed
  then show "\<bar>(cx - (w * \<bar>c\<bar> + h * \<bar>s\<bar>) / 2) * c + (cy - (w * \<bar>s\<bar> + h * \<bar>c\<bar>) / 2) * s\<bar> \<le> w / 2"
    and "\<bar>(cy - (w * \<bar>s\<bar> + h * \<bar>c\<bar>) / 2) * c - (cx - (w * \<bar>c\<bar> + h * \<bar>s\<bar>) / 2) * s\<bar> \<le> h / 2"
    by simp_all
qed

subsection \<open>The bound of the wait\<close>

lemma waitForCV_ready_within:
  "ready (t + k) \<Longrightarrow> int k \<le> n \<Longrightarrow> \<exists>j \<le> k. waitForCV ready t n = Inr (t + j)"
proof (induction ready t n arbitrary: k rule: waitForCV.induct)
  case (1 ready t retries)
  show ?case
  proof (cases "ready t")
    case True
    then have "waitForCV ready t retries = Inr (t + 0)" by (simp add: waitForCV.simps)
    then show ?thesis by blast
  next
    case False
    with "1.prems"(1) have "k \<noteq> 0" by (metis add.right_neutral)
    then obtain k' where k: "k = Suc k'" by (cases k) simp_all
    with "1.prems"(2) have pos: "\<not> retries \<le> 0" by simp
    from k "1.prems" have "ready (Suc t + k')" "int k' \<le> retries - 1" by simp_all
    from "1.IH" [OF False pos this] obtain j where j: "j \<le> k'"
      and w: "waitForCV ready (Suc t) (retries - 1) = Inr (Suc t + j)" by blast
    from False pos w have "waitForCV ready t retries = Inr (t + Suc j)"
      by (subst waitForCV.simps) simp
    with j k show ?thesis by (intro exI [of _ "Suc j"]) simp
  qed
qed

lemma waitForCV_unavailable_iff:
  "waitForCV (cvReady e) 0 300 = Inl EngineUnavailable \<longleftrightarrow> (\<forall>k \<le> 300. \<not> cvReady e k)"
proof
  assume f: "waitForCV (cvReady e) 0 300 = Inl EngineUnavailable"
  show "\<forall>k \<le> 300. \<not> cvReady e k"
  proof (intro allI impI notI)
    fix k :: nat
    assume "k \<le> 300" and "cvReady e k"
    then have "cvReady e (0 + k)" "int k \<le> 300" by simp_all
    from waitForCV_ready_within [of "cvReady e" 0 k 300, OF this] f show False by auto
  qed
next
  assume "\<forall>k \<le> 300. \<not> cvReady e k"
  then show "waitForCV (cvReady e) 0 300 = Inl EngineUnavailable"
    by (intro waitForCV_never_ready) simp_all
qed

section \<open>The claims\<close>

subsection \<open>Claim C1\<close>

text \<open>
  Claim C1, as stated, fails: \<open>applyPerspectiveCrop\<close> passes the two maxima of side
  lengths to \<^verbatim>\<open>new cv.Size(targetW, targetH)\<close> as they are, without rounding and
  without a lower bound of 1. The square of side 1/4 has positive area and is warped at
  size 1/4 by 1/4, which is neither its rounded value 0 nor at least 1.
\<close>

theorem applyPerspectiveCrop_size_counterexample:
  "0 < spec_area2 \<lparr>px = 0, py = 0\<rparr> \<lparr>px = 1 / 4, py = 0\<rparr> \<lparr>px = 1 / 4, py = 1 / 4\<rparr> \<lparr>px = 0, py = 1 / 4\<rparr>
   \<and> applyPerspectiveCrop env_ok (Src ''page'')
         [\<lparr>px = 0, py = 0\<rparr>, \<lparr>px = 1 / 4, py = 0\<rparr>, \<lparr>px = 1 / 4, py = 1 / 4\<rparr>, \<lparr>px = 0, py = 1 / 4\<rparr>]
       = Resolved (Warped (Src ''page'')
           [\<lparr>px = 0, py = 0\<rparr>, \<lparr>px = 1 / 4, py = 0\<rparr>, \<lparr>px = 1 / 4, py = 1 / 4\<rparr>, \<lparr>px = 0, py = 1 / 4\<rparr>]
           (spec_dstCoords (1 / 4) (1 / 4)) (1 / 4) (1 / 4))
   \<and> js_round (1 / 4) = 0
   \<and> (1 / 4 :: real) < 1"
proof -
  let ?a = "\<lparr>px = 0, py = 0 :: real\<rparr>" and ?b = "\<lparr>px = 1 / 4, py = 0 :: real\<rparr>"
  let ?c = "\<lparr>px = 1 / 4, py = 1 / 4 :: real\<rparr>" and ?d = "\<lparr>px = 0, py = 1 / 4 :: real\<rparr>"
  have sp: "sortPoints [?a, ?b, ?c, ?d] = [?a, ?b, ?c, ?d]"
    by (simp add: sortPoints_def)
  have w: "spec_targetW ?a ?b ?c ?d = 1 / 4"
    by (simp add: spec_targetW_def spec_dist_horizontal)
  have h: "spec_targetH ?a ?b ?c ?d = 1 / 4"
    by (simp add: spec_targetH_def spec_dist_vertical)
  have "applyPerspectiveCrop env_ok (Src ''page'') [?a, ?b, ?c, ?d]
      = Resolved (Warped (Src ''page'') [?a, ?b, ?c, ?d] (spec_dstCoords (1 / 4) (1 / 4)) (1 / 4) (1 / 4))"
    using applyPerspectiveCrop_sorted [OF env_ok_ready _ _ _ sp, of "Src ''page''" "(100, 100)"]
    by (simp add: env_ok_def w h)
  moreover have "0 < spec_area2 ?a ?b ?c ?d" by (simp add: spec_area2_def)
  moreover have "js_round (1 / 4) = 0" by (simp add: js_round_def)
  ultimately show ?thesis by simp
qed

text \<open>
  Claim C1, amended. When the engine is loaded, the image decodes and no engine call
  raises, \<open>applyPerspectiveCrop\<close> on four points whose ordered quadrilateral has positive
  area warps that quadrilateral onto \<open>[(0,0), (W,0), (W,H), (0,H)]\<close> at the requested size
  \<open>W = max(dist(TL,TR), dist(BL,BR))\<close> by \<open>H = max(dist(TL,BL), dist(TR,BR))\<close>, unrounded;
  both are strictly positive.
\<close>

theorem applyPerspectiveCrop_size:
  assumes "waitForCV (cvReady e) 0 300 = Inr t"
    and "imgLoad e u = Some wh"
    and "\<not> cvImreadThrows e u"
    and "\<forall>q w h. \<not> cvWarpThrows e u q w h"
    and "length pts = 4"
    and "sortPoints pts = [tL, tR, bR, bL]"
    and "0 < spec_area2 tL tR bR bL"
  shows "applyPerspectiveCrop e u pts
           = Resolved (Warped u [tL, tR, bR, bL]
               (spec_dstCoords (spec_targetW tL tR bR bL) (spec_targetH tL tR bR bL))
               (spec_targetW tL tR bR bL) (spec_targetH tL tR bR bL))
         \<and> 0 < spec_targetW tL tR bR bL \<and> 0 < spec_targetH tL tR bR bL"
proof -
  from assms(5) have "4 \<le> length pts" by simp
  from applyPerspectiveCrop_sorted [OF assms(1) assms(2) assms(3) this assms(6)] assms(4)
  have "applyPerspectiveCrop e u pts
           = Resolved (Warped u [tL, tR, bR, bL]
               (spec_dstCoords (spec_targetW tL tR bR bL) (spec_targetH tL tR bR bL))
               (spec_targetW tL tR bR bL) (spec_targetH tL tR bR bL))"
    by simp
  with spec_targetW_pos [OF assms(7)] spec_targetH_pos [OF assms(7)] show ?thesis by simp
qed

theorem applyPerspectiveCrop_size_witness:
  "applyPerspectiveCrop env_ok (Src ''page'')
       [\<lparr>px = 4, py = 3\<rparr>, \<lparr>px = 0, py = 0\<rparr>, \<lparr>px = 0, py = 3\<rparr>, \<lparr>px = 4, py = 0\<rparr>]
     = Resolved (Warped (Src ''page'')
         [\<lparr>px = 0, py = 0\<rparr>, \<lparr>px = 4, py = 0\<rparr>, \<lparr>px = 4, py = 3\<rparr>, \<lparr>px = 0, py = 3\<rparr>]
         (spec_dstCoords 4 3) 4 3)"
proof -
  let ?a = "\<lparr>px = 0, py = 0 :: real\<rparr>" and ?b = "\<lparr>px = 4, py = 0 :: real\<rparr>"
  let ?c = "\<lparr>px = 4, py = 3 :: real\<rparr>" and ?d = "\<lparr>px = 0, py = 3 :: real\<rparr>"
  have sp: "sortPoints [?c, ?a, ?d, ?b] = [?a, ?b, ?c, ?d]"
    by (simp add: sortPoints_def)
  have ar: "0 < spec_area2 ?a ?b ?c ?d" by (simp add: spec_area2_def)
  have w: "spec_targetW ?a ?b ?c ?d = 4"
    by (simp add: spec_targetW_def spec_dist_horizontal)
  have h: "spec_targetH ?a ?b ?c ?d = 3"
    by (simp add: spec_targetH_def spec_dist_vertical)
  have e: "imgLoad env_ok (Src ''page'') = Some (100, 100)" "\<not> cvImreadThrows env_ok (Src ''page'')"
    "\<forall>q w h. \<not> cvWarpThrows env_ok (Src ''page'') q w h"
    by (simp_all add: env_ok_def)
  have l: "length [?c, ?a, ?d, ?b] = 4" by simp
  from applyPerspectiveCrop_size [OF env_ok_ready e l sp ar] show ?thesis
    by (simp add: w h)
qed

subsection \<open>Claim C2\<close>

text \<open>
  Claim C2, as stated, fails: \<open>applyPerspectiveCrop\<close> has no test for a degenerate
  quadrilateral. Four copies of the point (1,1) enclose no area, and the function still
  warps, at size 0 by 0, instead of returning the input image.
\<close>

theorem applyPerspectiveCrop_degenerate_counterexample:
  "spec_area2 \<lparr>px = 1, py = 1\<rparr> \<lparr>px = 1, py = 1\<rparr> \<lparr>px = 1, py = 1\<rparr> \<lparr>px = 1, py = 1\<rparr> = 0
   \<and> applyPerspectiveCrop env_ok (Src ''page'')
         [\<lparr>px = 1, py = 1\<rparr>, \<lparr>px = 1, py = 1\<rparr>, \<lparr>px = 1, py = 1\<rparr>, \<lparr>px = 1, py = 1\<rparr>]
       = Resolved (Warped (Src ''page'')
           [\<lparr>px = 1, py = 1\<rparr>, \<lparr>px = 1, py = 1\<rparr>, \<lparr>px = 1, py = 1\<rparr>, \<lparr>px = 1, py = 1\<rparr>]
           (spec_dstCoords 0 0) 0 0)
   \<and> applyPerspectiveCrop env_ok (Src ''page'')
         [\<lparr>px = 1, py = 1\<rparr>, \<lparr>px = 1, py = 1\<rparr>, \<lparr>px = 1, py = 1\<rparr>, \<lparr>px = 1, py = 1\<rparr>]
       \<noteq> Resolved (Src ''page'')"
proof -
  let ?p = "\<lparr>px = 1, py = 1 :: real\<rparr>"
  have sp: "sortPoints [?p, ?p, ?p, ?p] = [?p, ?p, ?p, ?p]"
    by (simp add: sortPoints_def)
  have w: "spec_targetW ?p ?p ?p ?p = 0" "spec_targetH ?p ?p ?p ?p = 0"
    by (simp_all add: spec_targetW_def spec_targetH_def spec_dist_horizontal)
  have "applyPerspectiveCrop env_ok (Src ''page'') [?p, ?p, ?p, ?p]
      = Resolved (Warped (Src ''page'') [?p, ?p, ?p, ?p] (spec_dstCoords 0 0) 0 0)"
    using applyPerspectiveCrop_sorted [OF env_ok_ready _ _ _ sp, of "Src ''page''" "(100, 100)"]
    by (simp add: env_ok_def w)
  moreover have "spec_area2 ?p ?p ?p ?p = 0" by (simp add: spec_area2_def)
  ultimately show ?thesis by simp
qed

text \<open>
  Claim C2, amended. When the engine is loaded, the image decodes and no engine call
  raises, \<open>applyPerspectiveCrop\<close> warps every four points, degenerate or not: the result
  is the warp of the ordered points, for four equal points a warp at size 0 by 0. In no
  environment and for no points does it resolve to the input image itself.
\<close>

theorem applyPerspectiveCrop_always_warps:
  assumes "waitForCV (cvReady e) 0 300 = Inr t"
    and "imgLoad e u = Some wh"
    and "\<not> cvImreadThrows e u"
    and "\<forall>q w h. \<not> cvWarpThrows e u q w h"
  shows "(\<forall>pts. length pts = 4 \<longrightarrow>
            (\<exists>w h. applyPerspectiveCrop e u pts
                      = Resolved (Warped u (sortPoints pts) (spec_dstCoords w h) w h)))
       \<and> (\<forall>p. applyPerspectiveCrop e u [p, p, p, p]
                 = Resolved (Warped u [p, p, p, p] (spec_dstCoords 0 0) 0 0))
       \<and> (\<forall>pts. applyPerspectiveCrop e u pts \<noteq> Resolved u)"
proof (intro conjI allI impI)
  fix pts :: "Point list"
  assume len: "length pts = 4"
  obtain a b c d where sp: "sortPoints pts = [a, b, c, d]"
    using sortPoints_shape by blast
  from len have "4 \<le> length pts" by simp
  from applyPerspectiveCrop_sorted [OF assms(1) assms(2) assms(3) this sp] assms(4)
  show "\<exists>w h. applyPerspectiveCrop e u pts
                = Resolved (Warped u (sortPoints pts) (spec_dstCoords w h) w h)"
    by (simp add: sp)
next
  fix p :: Point
  have sp: "sortPoints [p, p, p, p] = [p, p, p, p]"
    by (simp add: sortPoints_def)
  have w: "spec_targetW p p p p = 0" "spec_targetH p p p p = 0"
    by (simp_all add: spec_targetW_def spec_targetH_def spec_dist_horizontal)
  have "4 \<le> length [p, p, p, p]" by simp
  from applyPerspectiveCrop_sorted [OF assms(1) assms(2) assms(3) this sp] assms(4)
  show "applyPerspectiveCrop e u [p, p, p, p]
          = Resolved (Warped u [p, p, p, p] (spec_dstCoords 0 0) 0 0)"
    by (simp add: w)
next
  fix pts
  show "applyPerspectiveCrop e u pts \<noteq> Resolved u"
    by (rule applyPerspectiveCrop_not_input)
qed

theorem applyPerspectiveCrop_always_warps_witness:
  "applyPerspectiveCrop env_ok (Src ''page'')
       [\<lparr>px = 2, py = 5\<rparr>, \<lparr>px = 2, py = 5\<rparr>, \<lparr>px = 2, py = 5\<rparr>, \<lparr>px = 2, py = 5\<rparr>]
     = Resolved (Warped (Src ''page'')
         [\<lparr>px = 2, py = 5\<rparr>, \<lparr>px = 2, py = 5\<rparr>, \<lparr>px = 2, py = 5\<rparr>, \<lparr>px = 2, py = 5\<rparr>]
         (spec_dstCoords 0 0) 0 0)"
proof -
  have e: "imgLoad env_ok (Src ''page'') = Some (100, 100)" "\<not> cvImreadThrows env_ok (Src ''page'')"
    "\<forall>q w h. \<not> cvWarpThrows env_ok (Src ''page'') q w h"
    by (simp_all add: env_ok_def)
  from applyPerspectiveCrop_always_warps [OF env_ok_ready e] show ?thesis by blast
qed

subsection \<open>Claim C3\<close>

text \<open>
  Claim C3, as stated, fails: the loop keeps one running \<^verbatim>\<open>maxArea\<close> for both
  branches, so a larger contour whose approximation has not four vertices replaces a
  four-vertex candidate found before it. With a four-vertex square of area 100 and a
  five-vertex blob of area 200, both above the threshold 10, the result is the rotated
  rectangle of the blob although a four-vertex approximation exists.
\<close>

theorem findContourPoints_four_vertex_counterexample:
  "length (approxPolyDP quadContour) = 4
   \<and> 1000 * 0.01 \<le> contourArea quadContour
   \<and> length (approxPolyDP blobContour) \<noteq> 4
   \<and> findContourPoints [quadContour, blobContour] 1 1000
       = Some [\<lparr>px = 20, py = 0\<rparr>, \<lparr>px = 45, py = 0\<rparr>, \<lparr>px = 45, py = 10\<rparr>, \<lparr>px = 20, py = 10\<rparr>]
   \<and> findContourPoints [quadContour, blobContour] 1 1000
       \<noteq> Some [\<lparr>px = 0, py = 0\<rparr>, \<lparr>px = 10, py = 0\<rparr>, \<lparr>px = 10, py = 10\<rparr>, \<lparr>px = 0, py = 10\<rparr>]"
  by (simp add: findContourPoints_def contourStep_eq candidate_def quadContour_def
      blobContour_def approxPoints_def rectPoints_def scaled_def js_round_def sortPoints_def)

text \<open>
  Claim C3, amended. \<open>findContourPoints\<close> returns nothing when no contour has an area
  of at least 1\% of the image area and above 0; otherwise its candidate comes from the
  first contour of largest area among those, whatever the number of vertices of its
  approximation: the approximation itself when it has exactly four vertices, the
  minimum-area rotated rectangle of that contour otherwise, scaled back and ordered by
  \<open>sortPoints\<close>.
\<close>

theorem findContourPoints_largest_area:
  "((\<forall>c \<in> set cs. \<not> qualifies (totalArea * 0.01) c) \<longrightarrow>
       findContourPoints cs scale totalArea = None)
   \<and> ((\<exists>c \<in> set cs. qualifies (totalArea * 0.01) c) \<longrightarrow>
       (\<exists>i. firstLargest (totalArea * 0.01) cs i
          \<and> findContourPoints cs scale totalArea = Some (sortPoints (candidate scale (cs ! i)))))"
  by (rule findContourPoints_thr) (rule refl)

theorem findContourPoints_largest_area_witness:
  "findContourPoints [] 1 1000 = None
   \<and> (\<exists>i. firstLargest (1000 * 0.01) [quadContour, blobContour] i
        \<and> findContourPoints [quadContour, blobContour] 1 1000
            = Some (sortPoints (candidate 1 ([quadContour, blobContour] ! i))))"
proof -
  have q: "\<exists>c \<in> set [quadContour, blobContour]. qualifies (1000 * 0.01) c"
    by (simp add: qualifies_def quadContour_def)
  have n: "\<forall>c \<in> set []. \<not> qualifies (1000 * 0.01) c" by simp
  from findContourPoints_largest_area [of "[]" 1000 1] n
    findContourPoints_largest_area [of "[quadContour, blobContour]" 1000 1] q
  show ?thesis by blast
qed

subsection \<open>Claim C4\<close>

text \<open>
  Claim C4. \<open>handleSave\<close> applies one transform, never two. With the crop tool and a
  quadrilateral it saves the outcome of \<open>applyPerspectiveCrop\<close> on the current image,
  whatever brightness, contrast and rotation are pending; otherwise, with a brightness or
  contrast other than 100 or a rotation other than 0, it saves the outcome of
  \<open>applyImageAdjustments\<close>; otherwise it passes the current image on unchanged. Whatever
  it saves is the current image or the result of a single transform of it.
\<close>

theorem handleSave_one_transform:
  "(activeTool st = Crop \<and> points st = Some q \<longrightarrow>
      handleSave e st = settle (applyPerspectiveCrop e (currentImage st) q)
    \<and> handleSave e (st\<lparr>brightness := b, contrast := c, rotation := r\<rparr>) = handleSave e st)
   \<and> (\<not> (activeTool st = Crop \<and> points st \<noteq> None)
      \<and> (brightness st \<noteq> 100 \<or> contrast st \<noteq> 100 \<or> rotation st \<noteq> 0) \<longrightarrow>
      handleSave e st
        = settle (applyImageAdjustments e (currentImage st) (brightness st) (contrast st) (rotation st)))
   \<and> (\<not> (activeTool st = Crop \<and> points st \<noteq> None)
      \<and> brightness st = 100 \<and> contrast st = 100 \<and> rotation st = 0 \<longrightarrow>
      handleSave e st = Saved (currentImage st))
   \<and> (\<forall>v. handleSave e st = Saved v \<longrightarrow> oneStepFrom (currentImage st) v)"
proof (intro conjI impI allI)
  assume "activeTool st = Crop \<and> points st = Some q"
  then show "handleSave e st = settle (applyPerspectiveCrop e (currentImage st) q)"
    by (simp add: handleSave_def)
next
  assume "activeTool st = Crop \<and> points st = Some q"
  then show "handleSave e (st\<lparr>brightness := b, contrast := c, rotation := r\<rparr>) = handleSave e st"
    by (simp add: handleSave_def)
next
  assume "\<not> (activeTool st = Crop \<and> points st \<noteq> None)
      \<and> (brightness st \<noteq> 100 \<or> contrast st \<noteq> 100 \<or> rotation st \<noteq> 0)"
  then show "handleSave e st
        = settle (applyImageAdjustments e (currentImage st) (brightness st) (contrast st) (rotation st))"
    by (auto simp: handleSave_def)
next
  assume "\<not> (activeTool st = Crop \<and> points st \<noteq> None)
      \<and> brightness st = 100 \<and> contrast st = 100 \<and> rotation st = 0"
  then show "handleSave e st = Saved (currentImage st)"
    by (auto simp: handleSave_def)
next
  fix v
  assume "handleSave e st = Saved v"
  then show "oneStepFrom (currentImage st) v"
    by (auto simp: handleSave_def Let_def oneStepFrom_def settle_Saved
        dest: applyPerspectiveCrop_oneStep applyImageAdjustments_oneStep split: if_splits)
qed

theorem handleSave_one_transform_witness:
  "handleSave env_ok editor_crop
     = Saved (Warped (Src ''page'')
         [\<lparr>px = 0, py = 0\<rparr>, \<lparr>px = 4, py = 0\<rparr>, \<lparr>px = 4, py = 3\<rparr>, \<lparr>px = 0, py = 3\<rparr>]
         (spec_dstCoords 4 3) 4 3)
   \<and> handleSave env_ok editor_adjust
     = settle (applyImageAdjustments env_ok (Src ''page'') 100 100 360)
   \<and> handleSave env_ok editor_plain = Saved (Src ''page'')"
proof (intro conjI)
  let ?a = "\<lparr>px = 0, py = 0 :: real\<rparr>" and ?b = "\<lparr>px = 4, py = 0 :: real\<rparr>"
  let ?c = "\<lparr>px = 4, py = 3 :: real\<rparr>" and ?d = "\<lparr>px = 0, py = 3 :: real\<rparr>"
  have sp: "sortPoints [?a, ?b, ?c, ?d] = [?a, ?b, ?c, ?d]" by (simp add: sortPoints_def)
  have w: "spec_targetW ?a ?b ?c ?d = 4" "spec_targetH ?a ?b ?c ?d = 3"
    by (simp_all add: spec_targetW_def spec_targetH_def spec_dist_horizontal spec_dist_vertical)
  have crop: "applyPerspectiveCrop env_ok (Src ''page'') [?a, ?b, ?c, ?d]
      = Resolved (Warped (Src ''page'') [?a, ?b, ?c, ?d] (spec_dstCoords 4 3) 4 3)"
    using applyPerspectiveCrop_sorted [OF env_ok_ready _ _ _ sp, of "Src ''page''" "(100, 100)"]
    by (simp add: env_ok_def w)
  have h: "activeTool editor_crop = Crop \<and> points editor_crop = Some [?a, ?b, ?c, ?d]"
    "currentImage editor_crop = Src ''page''"
    by (simp_all add: editor_crop_def editor0_def)
  from handleSave_one_transform [of editor_crop "[?a, ?b, ?c, ?d]" env_ok] h crop
  show "handleSave env_ok editor_crop
     = Saved (Warped (Src ''page'') [?a, ?b, ?c, ?d] (spec_dstCoords 4 3) 4 3)"
    by (simp add: settle_def)
next
  have h: "\<not> (activeTool editor_adjust = Crop \<and> points editor_adjust \<noteq> None)
      \<and> (brightness editor_adjust \<noteq> 100 \<or> contrast editor_adjust \<noteq> 100 \<or> rotation editor_adjust \<noteq> 0)"
    by (simp add: editor_adjust_def editor0_def)
  have v: "currentImage editor_adjust = Src ''page''" "brightness editor_adjust = 100"
    "contrast editor_adjust = 100" "rotation editor_adjust = 360"
    by (simp_all add: editor_adjust_def editor0_def)
  from handleSave_one_transform [of editor_adjust _ env_ok] h
  show "handleSave env_ok editor_adjust
     = settle (applyImageAdjustments env_ok (Src ''page'') 100 100 360)"
    by (simp add: v)
next
  have h: "\<not> (activeTool editor_plain = Crop \<and> points editor_plain \<noteq> None)
      \<and> brightness editor_plain = 100 \<and> contrast editor_plain = 100 \<and> rotation editor_plain = 0"
    by (simp add: editor_plain_def editor0_def)
  have v: "currentImage editor_plain = Src ''page''"
    by (simp add: editor_plain_def editor0_def)
  from handleSave_one_transform [of editor_plain _ env_ok] h
  show "handleSave env_ok editor_plain = Saved (Src ''page'')"
    by (simp add: v)
qed

subsection \<open>Claim C5\<close>

text \<open>
  Claim C5, as stated, fails on ties: the sorts are stable, so points of equal y keep
  their input order. The parallelogram (15,0), (0,8), (21,8), (6,16) has two vertices at
  y = 8; given in two orders it is warped once at 17 by 10 and once at 10 by 17.
\<close>

theorem applyPerspectiveCrop_permutation_counterexample:
  "mset [\<lparr>px = 15, py = 0\<rparr>, \<lparr>px = 21, py = 8\<rparr>, \<lparr>px = 0, py = 8\<rparr>, \<lparr>px = 6, py = 16\<rparr>]
     = mset [\<lparr>px = 15, py = 0\<rparr>, \<lparr>px = 0, py = 8\<rparr>, \<lparr>px = 21, py = 8\<rparr>, \<lparr>px = 6, py = 16::real\<rparr>]
   \<and> applyPerspectiveCrop env_ok (Src ''page'')
         [\<lparr>px = 15, py = 0\<rparr>, \<lparr>px = 0, py = 8\<rparr>, \<lparr>px = 21, py = 8\<rparr>, \<lparr>px = 6, py = 16\<rparr>]
       = Resolved (Warped (Src ''page'')
           [\<lparr>px = 0, py = 8\<rparr>, \<lparr>px = 15, py = 0\<rparr>, \<lparr>px = 21, py = 8\<rparr>, \<lparr>px = 6, py = 16\<rparr>]
           (spec_dstCoords 17 10) 17 10)
   \<and> applyPerspectiveCrop env_ok (Src ''page'')
         [\<lparr>px = 15, py = 0\<rparr>, \<lparr>px = 21, py = 8\<rparr>, \<lparr>px = 0, py = 8\<rparr>, \<lparr>px = 6, py = 16\<rparr>]
       = Resolved (Warped (Src ''page'')
           [\<lparr>px = 15, py = 0\<rparr>, \<lparr>px = 21, py = 8\<rparr>, \<lparr>px = 6, py = 16\<rparr>, \<lparr>px = 0, py = 8\<rparr>]
           (spec_dstCoords 10 17) 10 17)"
proof -
  let ?A = "\<lparr>px = 15, py = 0 :: real\<rparr>" and ?B = "\<lparr>px = 0, py = 8 :: real\<rparr>"
  let ?C = "\<lparr>px = 21, py = 8 :: real\<rparr>" and ?D = "\<lparr>px = 6, py = 16 :: real\<rparr>"
  have sp1: "sortPoints [?A, ?B, ?C, ?D] = [?B, ?A, ?C, ?D]"
    by (simp add: sortPoints_def)
  have sp2: "sortPoints [?A, ?C, ?B, ?D] = [?A, ?C, ?D, ?B]"
    by (simp add: sortPoints_def)
  have d: "spec_dist ?B ?A = 17" "spec_dist ?D ?C = 17" "spec_dist ?B ?D = 10" "spec_dist ?A ?C = 10"
    "spec_dist ?A ?B = 17" "spec_dist ?C ?D = 17" "spec_dist ?C ?A = 10" "spec_dist ?D ?B = 10"
    by (simp_all add: spec_dist_def sqrt_289 sqrt_100)
  have w1: "spec_targetW ?B ?A ?C ?D = 17" "spec_targetH ?B ?A ?C ?D = 10"
    by (simp_all add: spec_targetW_def spec_targetH_def d)
  have w2: "spec_targetW ?A ?C ?D ?B = 10" "spec_targetH ?A ?C ?D ?B = 17"
    by (simp_all add: spec_targetW_def spec_targetH_def d)
  have r1: "applyPerspectiveCrop env_ok (Src ''page'') [?A, ?B, ?C, ?D]
      = Resolved (Warped (Src ''page'') [?B, ?A, ?C, ?D] (spec_dstCoords 17 10) 17 10)"
    using applyPerspectiveCrop_sorted [OF env_ok_ready _ _ _ sp1, of "Src ''page''" "(100, 100)"]
    by (simp add: env_ok_def w1)
  have r2: "applyPerspectiveCrop env_ok (Src ''page'') [?A, ?C, ?B, ?D]
      = Resolved (Warped (Src ''page'') [?A, ?C, ?D, ?B] (spec_dstCoords 10 17) 10 17)"
    using applyPerspectiveCrop_sorted [OF env_ok_ready _ _ _ sp2, of "Src ''page''" "(100, 100)"]
    by (simp add: env_ok_def w2)
  have m: "mset [?A, ?C, ?B, ?D] = mset [?A, ?B, ?C, ?D]" by simp
  from m r1 r2 show ?thesis by (intro conjI)
qed

text \<open>
  Claim C5, amended. \<open>applyPerspectiveCrop\<close> orders its points before warping, so for
  every environment and image, and every permutation of four points whose top pair lies
  strictly above the bottom pair, with distinct x within each pair, the result is the one
  obtained from the canonical order \<open>[TL, TR, BR, BL]\<close>; when it resolves, it is the warp
  of that quadrilateral at the size computed from it.
\<close>

theorem applyPerspectiveCrop_permutation:
  assumes "untied tL tR bR bL" and "mset qs = mset [tL, tR, bR, bL]"
  shows "applyPerspectiveCrop e u qs = applyPerspectiveCrop e u [tL, tR, bR, bL]
       \<and> (\<forall>r. applyPerspectiveCrop e u qs = Resolved r \<longrightarrow>
            r = Warped u [tL, tR, bR, bL]
                  (spec_dstCoords (spec_targetW tL tR bR bL) (spec_targetH tL tR bR bL))
                  (spec_targetW tL tR bR bL) (spec_targetH tL tR bR bL))"
proof -
  have sq: "sortPoints qs = [tL, tR, bR, bL]"
    by (rule sortPoints_canonical [OF assms])
  have sc: "sortPoints [tL, tR, bR, bL] = [tL, tR, bR, bL]"
    by (rule sortPoints_canonical [OF assms(1)]) simp
  have "size (mset qs) = 4" by (simp add: assms(2))
  then have len: "4 \<le> length qs" by simp
  have eq: "applyPerspectiveCrop e u qs = applyPerspectiveCrop e u [tL, tR, bR, bL]"
    by (rule applyPerspectiveCrop_cong) (simp_all add: len sq sc)
  have "r = Warped u [tL, tR, bR, bL]
                  (spec_dstCoords (spec_targetW tL tR bR bL) (spec_targetH tL tR bR bL))
                  (spec_targetW tL tR bR bL) (spec_targetH tL tR bR bL)"
    if r: "applyPerspectiveCrop e u qs = Resolved r" for r
  proof -
    from r obtain t wh where c: "waitForCV (cvReady e) 0 300 = Inr t" "imgLoad e u = Some wh"
      "\<not> cvImreadThrows e u"
      by (auto simp: applyPerspectiveCrop_def split: sum.splits option.splits if_splits)
    from applyPerspectiveCrop_sorted [OF c len sq] r show ?thesis
      by (simp split: if_splits)
  qed
  with eq show ?thesis by blast
qed

theorem applyPerspectiveCrop_permutation_witness:
  "applyPerspectiveCrop env_ok (Src ''page'')
       [\<lparr>px = 4, py = 3\<rparr>, \<lparr>px = 0, py = 0\<rparr>, \<lparr>px = 0, py = 3\<rparr>, \<lparr>px = 4, py = 0\<rparr>]
   = applyPerspectiveCrop env_ok (Src ''page'')
       [\<lparr>px = 0, py = 0\<rparr>, \<lparr>px = 4, py = 0\<rparr>, \<lparr>px = 4, py = 3\<rparr>, \<lparr>px = 0, py = 3\<rparr>]"
proof -
  let ?a = "\<lparr>px = 0, py = 0 :: real\<rparr>" and ?b = "\<lparr>px = 4, py = 0 :: real\<rparr>"
  let ?c = "\<lparr>px = 4, py = 3 :: real\<rparr>" and ?d = "\<lparr>px = 0, py = 3 :: real\<rparr>"
  have u: "untied ?a ?b ?c ?d" by (simp add: untied_def)
  have m: "mset [?c, ?a, ?d, ?b] = mset [?a, ?b, ?c, ?d]" by simp
  from applyPerspectiveCrop_permutation [OF u m] show ?thesis by blast
qed

subsection \<open>Claim C6\<close>

text \<open>
  Claim C6. \<open>sortPoints\<close> maps every permutation of the same four points, no two of
  which share an x or a y coordinate, to one canonical order \<open>[TL, TR, BR, BL]\<close>: the
  two points of smallest y sorted by x ascending, then the two others sorted by x
  descending. The result contains exactly the input points, its top pair lies above its
  bottom pair, and ordering it again returns it unchanged.
\<close>

theorem sortPoints_permutation_invariant:
  assumes "length ps = 4" and "distinct (map px ps)" and "distinct (map py ps)"
  shows "\<exists>tL tR bR bL.
           sortPoints ps = [tL, tR, bR, bL]
         \<and> mset [tL, tR, bR, bL] = mset ps
         \<and> max (py tL) (py tR) < min (py bR) (py bL)
         \<and> px tL < px tR \<and> px bL < px bR
         \<and> [tL, tR] = sort_key px (take 2 (sort_key py ps))
         \<and> [bR, bL] = sort_key (\<lambda>p. - px p) (take 2 (drop 2 (sort_key py ps)))
         \<and> (\<forall>qs. mset qs = mset ps \<longrightarrow> sortPoints qs = [tL, tR, bR, bL])
         \<and> sortPoints [tL, tR, bR, bL] = [tL, tR, bR, bL]"
proof -
  from untied_exists [OF assms] obtain tL tR bR bL
    where u: "untied tL tR bR bL" and m: "mset [tL, tR, bR, bL] = mset ps"
    by blast
  have all: "sortPoints qs = [tL, tR, bR, bL]" if "mset qs = mset ps" for qs
    using sortPoints_canonical [OF u] that m by simp
  have sp: "sortPoints ps = [tL, tR, bR, bL]" by (rule all) simp
  have idem: "sortPoints [tL, tR, bR, bL] = [tL, tR, bR, bL]"
    by (rule sortPoints_canonical [OF u]) simp
  have l2: "length (sort_key px (take 2 (sort_key py ps))) = 2"
    using assms(1) by simp
  from sortPoints_append [of ps] assms(1) sp
  have app: "sort_key px (take 2 (sort_key py ps))
      @ sort_key (\<lambda>p. - px p) (take 2 (drop 2 (sort_key py ps))) = [tL, tR] @ [bR, bL]"
    by simp
  have parts: "sort_key px (take 2 (sort_key py ps)) = [tL, tR]
      \<and> sort_key (\<lambda>p. - px p) (take 2 (drop 2 (sort_key py ps))) = [bR, bL]"
    using app l2 by (subst (asm) append_eq_append_conv) simp_all
  from u have ineq: "max (py tL) (py tR) < min (py bR) (py bL)" "px tL < px tR" "px bL < px bR"
    by (simp_all add: untied_def)
  show ?thesis
  proof (intro exI conjI allI impI)
    show "sortPoints ps = [tL, tR, bR, bL]" by (fact sp)
    show "mset [tL, tR, bR, bL] = mset ps" by (fact m)
    show "max (py tL) (py tR) < min (py bR) (py bL)" by (fact ineq)
    show "px tL < px tR" by (fact ineq)
    show "px bL < px bR" by (fact ineq)
    show "[tL, tR] = sort_key px (take 2 (sort_key py ps))" using parts by simp
    show "[bR, bL] = sort_key (\<lambda>p. - px p) (take 2 (drop 2 (sort_key py ps)))"
      using parts by simp
    show "sortPoints qs = [tL, tR, bR, bL]" if "mset qs = mset ps" for qs
      using that by (rule all)
    show "sortPoints [tL, tR, bR, bL] = [tL, tR, bR, bL]" by (fact idem)
  qed
qed

theorem sortPoints_permutation_invariant_witness:
  "sortPoints [\<lparr>px = 9, py = 7\<rparr>, \<lparr>px = 1, py = 2\<rparr>, \<lparr>px = 2, py = 8\<rparr>, \<lparr>px = 8, py = 1\<rparr>]
   = sortPoints [\<lparr>px = 1, py = 2\<rparr>, \<lparr>px = 8, py = 1\<rparr>, \<lparr>px = 9, py = 7\<rparr>, \<lparr>px = 2, py = 8\<rparr>]"
proof -
  let ?ps = "[\<lparr>px = 1, py = 2\<rparr>, \<lparr>px = 8, py = 1\<rparr>, \<lparr>px = 9, py = 7\<rparr>, \<lparr>px = 2, py = 8::real\<rparr>]"
  let ?qs = "[\<lparr>px = 9, py = 7\<rparr>, \<lparr>px = 1, py = 2\<rparr>, \<lparr>px = 2, py = 8\<rparr>, \<lparr>px = 8, py = 1::real\<rparr>]"
  have h: "length ?ps = 4" "distinct (map px ?ps)" "distinct (map py ?ps)" by simp_all
  have m: "mset ?qs = mset ?ps" by simp
  from sortPoints_permutation_invariant [OF h] m show ?thesis by metis
qed

subsection \<open>Claim C7\<close>

text \<open>
  Claim C7. \<open>detectDocumentCorners\<close> always resolves and never rejects. The wait
  declares the engine unavailable exactly when it is not ready at any of the 301 tests
  made over 300 waits of 100 ms. Detection resolves to \<open>None\<close> in that case, when the image does not decode, when reading the image into the engine raises,
  when the edge stage raises, and when the edge stage finds nothing and the threshold
  stage raises.
\<close>

theorem detectDocumentCorners_never_rejects:
  "(\<exists>r. detectDocumentCorners e u = Resolved r)
   \<and> (waitForCV (cvReady e) 0 300 = Inl EngineUnavailable \<longleftrightarrow> (\<forall>k \<le> 300. \<not> cvReady e k))
   \<and> ((\<forall>k \<le> 300. \<not> cvReady e k) \<longrightarrow> detectDocumentCorners e u = Resolved None)
   \<and> (imgLoad e u = None \<longrightarrow> detectDocumentCorners e u = Resolved None)
   \<and> (cvImreadThrows e u \<longrightarrow> detectDocumentCorners e u = Resolved None)
   \<and> ((\<exists>err. cvEdgeContours e u = Inl err) \<longrightarrow> detectDocumentCorners e u = Resolved None)
   \<and> (\<forall>cols rows cs err.
        imgLoad e u = Some (cols, rows) \<and> cvEdgeContours e u = Inr cs
        \<and> findContourPoints cs (min (800 / real rows) (800 / real cols))
             (of_int (js_round (real rows * min (800 / real rows) (800 / real cols)))
              * of_int (js_round (real cols * min (800 / real rows) (800 / real cols)))) = None
        \<and> cvThreshContours e u = Inl err
        \<longrightarrow> detectDocumentCorners e u = Resolved None)"
proof (intro conjI impI allI)
  show "\<exists>r. detectDocumentCorners e u = Resolved r"
    by (rule detectDocumentCorners_resolves)
next
  show "waitForCV (cvReady e) 0 300 = Inl EngineUnavailable \<longleftrightarrow> (\<forall>k \<le> 300. \<not> cvReady e k)"
    by (rule waitForCV_unavailable_iff)
next
  assume "\<forall>k \<le> 300. \<not> cvReady e k"
  then have "waitForCV (cvReady e) 0 300 = Inl EngineUnavailable"
    by (simp add: waitForCV_unavailable_iff)
  then show "detectDocumentCorners e u = Resolved None"
    by (simp add: detectDocumentCorners_def)
next
  assume "imgLoad e u = None"
  then show "detectDocumentCorners e u = Resolved None"
    by (simp add: detectDocumentCorners_def split: sum.split)
next
  assume "cvImreadThrows e u"
  then show "detectDocumentCorners e u = Resolved None"
    by (simp add: detectDocumentCorners_def split: sum.split option.split)
next
  assume "\<exists>err. cvEdgeContours e u = Inl err"
  then show "detectDocumentCorners e u = Resolved None"
    by (auto simp: detectDocumentCorners_def Let_def split: sum.split option.split)
next
  fix cols rows cs err
  assume "imgLoad e u = Some (cols, rows) \<and> cvEdgeContours e u = Inr cs
        \<and> findContourPoints cs (min (800 / real rows) (800 / real cols))
             (of_int (js_round (real rows * min (800 / real rows) (800 / real cols)))
              * of_int (js_round (real cols * min (800 / real rows) (800 / real cols)))) = None
        \<and> cvThreshContours e u = Inl err"
  then show "detectDocumentCorners e u = Resolved None"
    by (simp add: detectDocumentCorners_def Let_def split: sum.split)
qed

theorem detectDocumentCorners_never_rejects_witness:
  "detectDocumentCorners env_never_ready (Src ''page'') = Resolved None
   \<and> detectDocumentCorners env_no_decode (Src ''page'') = Resolved None
   \<and> detectDocumentCorners env_imread_throws (Src ''page'') = Resolved None
   \<and> detectDocumentCorners env_edge_throws (Src ''page'') = Resolved None
   \<and> detectDocumentCorners env_thresh_throws (Src ''page'') = Resolved None"
proof (intro conjI)
  have "\<forall>k \<le> 300. \<not> cvReady env_never_ready k"
    by (simp add: env_never_ready_def)
  with detectDocumentCorners_never_rejects [of env_never_ready "Src ''page''"]
  show "detectDocumentCorners env_never_ready (Src ''page'') = Resolved None" by blast
next
  have "imgLoad env_no_decode (Src ''page'') = None"
    by (simp add: env_no_decode_def)
  with detectDocumentCorners_never_rejects [of env_no_decode "Src ''page''"]
  show "detectDocumentCorners env_no_decode (Src ''page'') = Resolved None" by blast
next
  have "cvImreadThrows env_imread_throws (Src ''page'')"
    by (simp add: env_imread_throws_def)
  with detectDocumentCorners_never_rejects [of env_imread_throws "Src ''page''"]
  show "detectDocumentCorners env_imread_throws (Src ''page'') = Resolved None" by blast
next
  have "\<exists>err. cvEdgeContours env_edge_throws (Src ''page'') = Inl err"
    by (simp add: env_edge_throws_def)
  with detectDocumentCorners_never_rejects [of env_edge_throws "Src ''page''"]
  show "detectDocumentCorners env_edge_throws (Src ''page'') = Resolved None" by blast
next
  have "imgLoad env_thresh_throws (Src ''page'') = Some (100, 100)
      \<and> cvEdgeContours env_thresh_throws (Src ''page'') = Inr []
      \<and> findContourPoints [] (min (800 / real 100) (800 / real 100))
             (of_int (js_round (real 100 * min (800 / real 100) (800 / real 100)))
              * of_int (js_round (real 100 * min (800 / real 100) (800 / real 100)))) = None
      \<and> cvThreshContours env_thresh_throws (Src ''page'') = Inl CvError"
    by (simp add: env_thresh_throws_def env_ok_def findContourPoints_Nil)
  with detectDocumentCorners_never_rejects [of env_thresh_throws "Src ''page''"]
  show "detectDocumentCorners env_thresh_throws (Src ''page'') = Resolved None" by blast
qed

subsection \<open>Claim C8\<close>

text \<open>
  Claim C8, as stated, fails for one of the two callers: \<open>autoCropImage\<close> returns the
  input URL when detection finds nothing. On a 100 by 100 image without contours it
  resolves to the input itself, whereas a crop by the default quadrilateral
  (10,10), (90,10), (90,90), (10,90) would be a warp at 80 by 80.
\<close>

theorem autoCropImage_no_default_counterexample:
  "detectDocumentCorners env_ok (Src ''page'') = Resolved None
   \<and> autoCropImage env_ok (Src ''page'') = Resolved (Src ''page'')
   \<and> applyPerspectiveCrop env_ok (Src ''page'') (spec_defaultQuad 100 100)
       = Resolved (Warped (Src ''page'') (spec_defaultQuad 100 100) (spec_dstCoords 80 80) 80 80)"
proof -
  let ?a = "\<lparr>px = 10, py = 10 :: real\<rparr>" and ?b = "\<lparr>px = 90, py = 10 :: real\<rparr>"
  let ?c = "\<lparr>px = 90, py = 90 :: real\<rparr>" and ?d = "\<lparr>px = 10, py = 90 :: real\<rparr>"
  have q: "spec_defaultQuad 100 100 = [?a, ?b, ?c, ?d]" by (simp add: spec_defaultQuad_def)
  have sp: "sortPoints [?a, ?b, ?c, ?d] = [?a, ?b, ?c, ?d]" by (simp add: sortPoints_def)
  have w: "spec_targetW ?a ?b ?c ?d = 80" "spec_targetH ?a ?b ?c ?d = 80"
    by (simp_all add: spec_targetW_def spec_targetH_def spec_dist_horizontal spec_dist_vertical)
  have "applyPerspectiveCrop env_ok (Src ''page'') [?a, ?b, ?c, ?d]
      = Resolved (Warped (Src ''page'') [?a, ?b, ?c, ?d] (spec_dstCoords 80 80) 80 80)"
    using applyPerspectiveCrop_sorted [OF env_ok_ready _ _ _ sp, of "Src ''page''" "(100, 100)"]
    by (simp add: env_ok_def w)
  moreover have "autoCropImage env_ok (Src ''page'') = Resolved (Src ''page'')"
    by (simp add: autoCropImage_def detect_env_ok)
  ultimately show ?thesis by (simp add: q detect_env_ok)
qed

text \<open>
  Claim C8, amended. When detection resolves to \<open>None\<close>, the editor's
  \<open>handlePerformAutoDetection\<close> (with the image element present) sets the points to the
  default inset quadrilateral at 10\% and 90\% of the natural width and height, and
  \<open>autoCropImage\<close> resolves to the input image unchanged.
\<close>

theorem detection_none_fallbacks:
  assumes "detectDocumentCorners e url = Resolved None"
  shows "(\<forall>st el. imageRef st = Some el \<longrightarrow>
            points (handlePerformAutoDetection e st url)
              = Some (spec_defaultQuad (real (naturalWidth el)) (real (naturalHeight el))))
       \<and> autoCropImage e url = Resolved url"
  using assms
  by (simp add: handlePerformAutoDetection_def autoCropImage_def spec_defaultQuad_def Let_def)

theorem detection_none_fallbacks_witness:
  "points (handlePerformAutoDetection env_ok editor0 (Src ''page''))
     = Some [\<lparr>px = 10, py = 10\<rparr>, \<lparr>px = 90, py = 10\<rparr>, \<lparr>px = 90, py = 90\<rparr>, \<lparr>px = 10, py = 90\<rparr>]
   \<and> autoCropImage env_ok (Src ''page'') = Resolved (Src ''page'')"
proof -
  have i: "imageRef editor0 = Some \<lparr>naturalWidth = 100, naturalHeight = 100, rectWidth = 50\<rparr>"
    by (simp add: editor0_def)
  from detection_none_fallbacks [OF detect_env_ok] i show ?thesis
    by (simp add: spec_defaultQuad_def)
qed

subsection \<open>Claim C9\<close>

text \<open>
  Claim C9. During a corner drag (no pan in progress, snapshot taken, image displayed
  with positive width) a pointer move sets the dragged corner to its snapshot position
  plus the screen displacement times \<open>naturalWidth / displayedWidth\<close>, each coordinate
  clamped into \<open>[0, naturalWidth]\<close> and \<open>[0, naturalHeight]\<close>; a displacement beyond a
  bound lands exactly on the bound; the other corners are those of the snapshot.
\<close>

theorem handleWindowMouseMove_drag:
  assumes "\<not> (isPanning st \<and> containerRef st \<noteq> None)"
    and "isDragging st"
    and "points st = Some pts"
    and "initialPointsRef st = Some initial"
    and "dragInfo st = Some i"
    and "i < length initial"
    and "imageRef st = Some el"
    and "0 < rectWidth el"
  shows "\<exists>new.
       handleWindowMouseMove st clientX clientY = Inr (st\<lparr>points := Some new\<rparr>)
     \<and> length new = length initial
     \<and> px (new ! i) = max 0 (min (real (naturalWidth el))
         (px (initial ! i)
            + (clientX - px (dragStartPosRef st)) * (real (naturalWidth el) / rectWidth el)))
     \<and> py (new ! i) = max 0 (min (real (naturalHeight el))
         (py (initial ! i)
            + (clientY - py (dragStartPosRef st)) * (real (naturalWidth el) / rectWidth el)))
     \<and> 0 \<le> px (new ! i) \<and> px (new ! i) \<le> real (naturalWidth el)
     \<and> 0 \<le> py (new ! i) \<and> py (new ! i) \<le> real (naturalHeight el)
     \<and> (real (naturalWidth el) \<le> px (initial ! i)
            + (clientX - px (dragStartPosRef st)) * (real (naturalWidth el) / rectWidth el)
          \<longrightarrow> px (new ! i) = real (naturalWidth el))
     \<and> (px (initial ! i)
            + (clientX - px (dragStartPosRef st)) * (real (naturalWidth el) / rectWidth el) \<le> 0
          \<longrightarrow> px (new ! i) = 0)
     \<and> (real (naturalHeight el) \<le> py (initial ! i)
            + (clientY - py (dragStartPosRef st)) * (real (naturalWidth el) / rectWidth el)
          \<longrightarrow> py (new ! i) = real (naturalHeight el))
     \<and> (py (initial ! i)
            + (clientY - py (dragStartPosRef st)) * (real (naturalWidth el) / rectWidth el) \<le> 0
          \<longrightarrow> py (new ! i) = 0)
     \<and> (\<forall>j < length initial. j \<noteq> i \<longrightarrow> new ! j = initial ! j)"
proof -
  define nx where "nx = max 0 (min (real (naturalWidth el))
         (px (initial ! i)
            + (clientX - px (dragStartPosRef st)) * (real (naturalWidth el) / rectWidth el)))"
  define ny where "ny = max 0 (min (real (naturalHeight el))
         (py (initial ! i)
            + (clientY - py (dragStartPosRef st)) * (real (naturalWidth el) / rectWidth el)))"
  define new where "new = initial[i := \<lparr>px = nx, py = ny\<rparr>]"
  have np: "\<not> isPanning st \<or> containerRef st = None" using assms(1) by blast
  have r: "handleWindowMouseMove st clientX clientY = Inr (st\<lparr>points := Some new\<rparr>)"
    using np assms(2-7)
    by (auto simp: handleWindowMouseMove_def Let_def new_def nx_def ny_def)
  have len: "length new = length initial" by (simp add: new_def)
  have at: "new ! i = \<lparr>px = nx, py = ny\<rparr>" using assms(6) by (simp add: new_def)
  have others: "\<forall>j < length initial. j \<noteq> i \<longrightarrow> new ! j = initial ! j"
    by (simp add: new_def)
  have rx: "0 \<le> nx \<and> nx \<le> real (naturalWidth el)"
    unfolding nx_def by (rule clamp_range) simp
  have ry: "0 \<le> ny \<and> ny \<le> real (naturalHeight el)"
    unfolding ny_def by (rule clamp_range) simp
  show ?thesis
  proof (intro exI [of _ new] conjI)
    show "handleWindowMouseMove st clientX clientY = Inr (st\<lparr>points := Some new\<rparr>)" by (fact r)
    show "length new = length initial" by (fact len)
    show "px (new ! i) = max 0 (min (real (naturalWidth el))
         (px (initial ! i)
            + (clientX - px (dragStartPosRef st)) * (real (naturalWidth el) / rectWidth el)))"
      by (simp add: at nx_def)
    show "py (new ! i) = max 0 (min (real (naturalHeight el))
         (py (initial ! i)
            + (clientY - py (dragStartPosRef st)) * (real (naturalWidth el) / rectWidth el)))"
      by (simp add: at ny_def)
    show "0 \<le> px (new ! i)" "px (new ! i) \<le> real (naturalWidth el)"
      using rx by (simp_all add: at)
    show "0 \<le> py (new ! i)" "py (new ! i) \<le> real (naturalHeight el)"
      using ry by (simp_all add: at)
    show "real (naturalWidth el) \<le> px (initial ! i)
            + (clientX - px (dragStartPosRef st)) * (real (naturalWidth el) / rectWidth el)
          \<longrightarrow> px (new ! i) = real (naturalWidth el)"
      by (simp add: at nx_def)
    show "px (initial ! i)
            + (clientX - px (dragStartPosRef st)) * (real (naturalWidth el) / rectWidth el) \<le> 0
          \<longrightarrow> px (new ! i) = 0"
      by (auto simp: at nx_def)
    show "real (naturalHeight el) \<le> py (initial ! i)
            + (clientY - py (dragStartPosRef st)) * (real (naturalWidth el) / rectWidth el)
          \<longrightarrow> py (new ! i) = real (naturalHeight el)"
      by (simp add: at ny_def)
    show "py (initial ! i)
            + (clientY - py (dragStartPosRef st)) * (real (naturalWidth el) / rectWidth el) \<le> 0
          \<longrightarrow> py (new ! i) = 0"
      by (auto simp: at ny_def)
    show "\<forall>j < length initial. j \<noteq> i \<longrightarrow> new ! j = initial ! j" by (fact others)
  qed
qed

theorem handleWindowMouseMove_drag_witness:
  "handleWindowMouseMove editor_drag 1000 46
     = Inr (editor_drag\<lparr>points :=
         Some [\<lparr>px = 10, py = 10\<rparr>, \<lparr>px = 90, py = 10\<rparr>, \<lparr>px = 100, py = 92\<rparr>, \<lparr>px = 10, py = 90\<rparr>]\<rparr>)"
proof -
  let ?init = "[\<lparr>px = 10, py = 10\<rparr>, \<lparr>px = 90, py = 10\<rparr>, \<lparr>px = 90, py = 90\<rparr>, \<lparr>px = 10, py = 90 :: real\<rparr>]"
  let ?el = "\<lparr>naturalWidth = 100, naturalHeight = 100, rectWidth = 50\<rparr>"
  have h: "\<not> (isPanning editor_drag \<and> containerRef editor_drag \<noteq> None)"
    "isDragging editor_drag" "points editor_drag = Some ?init"
    "initialPointsRef editor_drag = Some ?init" "dragInfo editor_drag = Some 2"
    "2 < length ?init" "imageRef editor_drag = Some ?el" "0 < rectWidth ?el"
    by (simp_all add: editor_drag_def editor0_def)
  from handleWindowMouseMove_drag [OF h, of 1000 46]
  obtain new where n: "handleWindowMouseMove editor_drag 1000 46 = Inr (editor_drag\<lparr>points := Some new\<rparr>)"
    and len: "length new = 4"
    and x: "px (new ! 2) = 100" and y: "py (new ! 2) = 92"
    and o: "\<forall>j < 4. j \<noteq> 2 \<longrightarrow> new ! j = ?init ! j"
    by (auto simp: editor_drag_def editor0_def)
  from o have o': "new ! 0 = ?init ! 0" "new ! 1 = ?init ! 1" "new ! 3 = ?init ! 3" by simp_all
  from x y have "new ! 2 = \<lparr>px = 100, py = 92\<rparr>" by (cases "new ! 2") simp
  with len o' have "new = [\<lparr>px = 10, py = 10\<rparr>, \<lparr>px = 90, py = 10\<rparr>, \<lparr>px = 100, py = 92\<rparr>, \<lparr>px = 10, py = 90\<rparr>]"
    using length4_nth [of new] by simp
  with n show ?thesis by simp
qed

subsection \<open>Claim C10\<close>

text \<open>
  Claim C10. The rotation is a multiple of 90 degrees: the editor starts it at 0 and only
  adds or subtracts 90. When the image decodes and a 2D context exists,
  \<open>applyImageAdjustments\<close> with such a rotation \<open>r\<close> makes a canvas of width
  \<open>w * |cos t| + h * |sin t|\<close> and height \<open>w * |sin t| + h * |cos t|\<close> for the angle \<open>t\<close> of
  \<open>r % 360\<close> degrees. Both are whole numbers, the width and height of the image or these
  two exchanged, so the canvas keeps them as assigned. The image is drawn rotated about the
  centre of the canvas: its centre lands on the centre of the canvas and each of its points
  lands inside the canvas, so nothing is cropped. Conversely every point of the canvas lies
  inside the drawn image: no corner is left uncovered, and the background the claim
  prescribes for uncovered corners concerns no point. With a rotation of 360 the canvas
  has the width and height of the image.
\<close>

theorem applyImageAdjustments_canvas:
  assumes "imgLoad e u = Some (w, h)" and "ctx2d e" and "90 dvd r"
  shows "\<exists>rads W H ops.
       rads = real_of_int (js_rem r 360) * pi / 180
     \<and> W = real w * \<bar>cos rads\<bar> + real h * \<bar>sin rads\<bar>
     \<and> H = real w * \<bar>sin rads\<bar> + real h * \<bar>cos rads\<bar>
     \<and> ops = [Filter b c, Translate (W / 2) (H / 2), Rotate rads,
              DrawImage u (- real w / 2) (- real h / 2)]
     \<and> applyImageAdjustments e u b c r = Resolved (Canvas W H ops)
     \<and> ((W = real w \<and> H = real h) \<or> (W = real h \<and> H = real w))
     \<and> userToCanvas (take 3 ops) (0, 0) = (W / 2, H / 2)
     \<and> (\<forall>x y. \<bar>x\<bar> \<le> real w / 2 \<and> \<bar>y\<bar> \<le> real h / 2 \<longrightarrow>
           0 \<le> fst (userToCanvas (take 3 ops) (x, y)) \<and> fst (userToCanvas (take 3 ops) (x, y)) \<le> W
         \<and> 0 \<le> snd (userToCanvas (take 3 ops) (x, y)) \<and> snd (userToCanvas (take 3 ops) (x, y)) \<le> H)
     \<and> (\<forall>cx cy. 0 \<le> cx \<and> cx \<le> W \<and> 0 \<le> cy \<and> cy \<le> H \<longrightarrow>
           \<bar>fst (canvasToUser (take 3 ops) (cx, cy))\<bar> \<le> real w / 2
         \<and> \<bar>snd (canvasToUser (take 3 ops) (cx, cy))\<bar> \<le> real h / 2)
     \<and> (r = 360 \<longrightarrow> W = real w \<and> H = real h)"
proof -
  define rads where "rads = real_of_int (js_rem r 360) * pi / 180"
  define W where "W = real w * \<bar>cos rads\<bar> + real h * \<bar>sin rads\<bar>"
  define H where "H = real w * \<bar>sin rads\<bar> + real h * \<bar>cos rads\<bar>"
  define ops where "ops = [Filter b c, Translate (W / 2) (H / 2), Rotate rads,
              DrawImage u (- real w / 2) (- real h / 2)]"
  from js_rem_quarter [OF assms(3)] obtain k where "js_rem r 360 = 90 * k" by blast
  then have "rads = real_of_int (90 * k) * pi / 180" by (simp add: rads_def)
  from quarter_turn_cases [OF this]
  have q: "(\<bar>cos rads\<bar> = 1 \<and> sin rads = 0) \<or> (cos rads = 0 \<and> \<bar>sin rads\<bar> = 1)" .
  have res: "applyImageAdjustments e u b c r = Resolved (Canvas W H ops)"
    using applyImageAdjustments_resolved [OF assms(1) assms(2), of b c r]
    by (simp add: ops_def W_def H_def rads_def)
  have whole: "(W = real w \<and> H = real h) \<or> (W = real h \<and> H = real w)"
    using q by (auto simp: W_def H_def)
  have u2c: "userToCanvas (take 3 ops) (x, y)
      = (x * cos rads - y * sin rads + W / 2, x * sin rads + y * cos rads + H / 2)" for x y
    by (simp add: ops_def userToCanvas_def)
  have c2u: "canvasToUser (take 3 ops) (cx, cy)
      = ((cx - W / 2) * cos rads + (cy - H / 2) * sin rads,
         (cy - H / 2) * cos rads - (cx - W / 2) * sin rads)" for cx cy
    by (simp add: ops_def canvasToUser_def)
  have centre: "userToCanvas (take 3 ops) (0, 0) = (W / 2, H / 2)"
    by (simp add: u2c)
  have inside: "0 \<le> fst (userToCanvas (take 3 ops) (x, y)) \<and> fst (userToCanvas (take 3 ops) (x, y)) \<le> W
         \<and> 0 \<le> snd (userToCanvas (take 3 ops) (x, y)) \<and> snd (userToCanvas (take 3 ops) (x, y)) \<le> H"
    if "\<bar>x\<bar> \<le> real w / 2 \<and> \<bar>y\<bar> \<le> real h / 2" for x y
  proof -
    from that have b: "\<bar>x\<bar> \<le> real w / 2" "\<bar>y\<bar> \<le> real h / 2" by simp_all
    from rot_bound [OF b, where c = "cos rads" and s = "sin rads"]
    have "\<bar>x * cos rads - y * sin rads\<bar> \<le> W / 2" "\<bar>x * sin rads + y * cos rads\<bar> \<le> H / 2"
      unfolding W_def H_def by blast+
    then have "- (W / 2) \<le> x * cos rads - y * sin rads" "x * cos rads - y * sin rads \<le> W / 2"
      "- (H / 2) \<le> x * sin rads + y * cos rads" "x * sin rads + y * cos rads \<le> H / 2"
      by linarith+
    then show ?thesis unfolding u2c fst_conv snd_conv by (intro conjI) linarith+
  qed
  have covered: "\<bar>fst (canvasToUser (take 3 ops) (cx, cy))\<bar> \<le> real w / 2
         \<and> \<bar>snd (canvasToUser (take 3 ops) (cx, cy))\<bar> \<le> real h / 2"
    if "0 \<le> cx \<and> cx \<le> W \<and> 0 \<le> cy \<and> cy \<le> H" for cx cy
  proof -
    from that have b: "0 \<le> cx" "cx \<le> real w * \<bar>cos rads\<bar> + real h * \<bar>sin rads\<bar>"
      "0 \<le> cy" "cy \<le> real w * \<bar>sin rads\<bar> + real h * \<bar>cos rads\<bar>"
      by (simp_all add: W_def H_def)
    from quarter_turn_cover [OF q b] show ?thesis
      unfolding c2u fst_conv snd_conv W_def H_def by blast
  qed
  have full: "W = real w \<and> H = real h" if "r = 360"
    using that by (simp add: W_def H_def rads_def js_rem_def)
  show ?thesis
  proof (rule exI [of _ rads], rule exI [of _ W], rule exI [of _ H], rule exI [of _ ops],
      intro conjI allI impI)
    show "rads = real_of_int (js_rem r 360) * pi / 180" by (fact rads_def)
    show "W = real w * \<bar>cos rads\<bar> + real h * \<bar>sin rads\<bar>" by (fact W_def)
    show "H = real w * \<bar>sin rads\<bar> + real h * \<bar>cos rads\<bar>" by (fact H_def)
    show "ops = [Filter b c, Translate (W / 2) (H / 2), Rotate rads,
              DrawImage u (- real w / 2) (- real h / 2)]" by (fact ops_def)
    show "applyImageAdjustments e u b c r = Resolved (Canvas W H ops)" by (fact res)
    show "(W = real w \<and> H = real h) \<or> (W = real h \<and> H = real w)" by (fact whole)
    show "userToCanvas (take 3 ops) (0, 0) = (W / 2, H / 2)" by (fact centre)
    show "W = real w" if "r = 360" using full that by simp
    show "H = real h" if "r = 360" using full that by simp
    show "0 \<le> fst (userToCanvas (take 3 ops) (x, y))"
      if "\<bar>x\<bar> \<le> real w / 2 \<and> \<bar>y\<bar> \<le> real h / 2" for x y using inside [OF that] by simp
    show "fst (userToCanvas (take 3 ops) (x, y)) \<le> W"
      if "\<bar>x\<bar> \<le> real w / 2 \<and> \<bar>y\<bar> \<le> real h / 2" for x y using inside [OF that] by simp
    show "0 \<le> snd (userToCanvas (take 3 ops) (x, y))"
      if "\<bar>x\<bar> \<le> real w / 2 \<and> \<bar>y\<bar> \<le> real h / 2" for x y using inside [OF that] by simp
    show "snd (userToCanvas (take 3 ops) (x, y)) \<le> H"
      if "\<bar>x\<bar> \<le> real w / 2 \<and> \<bar>y\<bar> \<le> real h / 2" for x y using inside [OF that] by simp
    show "\<bar>fst (canvasToUser (take 3 ops) (cx, cy))\<bar> \<le> real w / 2"
      if "0 \<le> cx \<and> cx \<le> W \<and> 0 \<le> cy \<and> cy \<le> H" for cx cy using covered [OF that] by simp
    show "\<bar>snd (canvasToUser (take 3 ops) (cx, cy))\<bar> \<le> real h / 2"
      if "0 \<le> cx \<and> cx \<le> W \<and> 0 \<le> cy \<and> cy \<le> H" for cx cy using covered [OF that] by simp
  qed
qed

theorem applyImageAdjustments_canvas_witness:
  "applyImageAdjustments env_wide (Src ''page'') 120 80 (- 90)
     = Resolved (Canvas 100 200
         [Filter 120 80, Translate 50 100, Rotate (- (pi / 2)), DrawImage (Src ''page'') (- 100) (- 50)])
   \<and> applyImageAdjustments env_wide (Src ''page'') 120 80 360
     = Resolved (Canvas 200 100
         [Filter 120 80, Translate 100 50, Rotate 0, DrawImage (Src ''page'') (- 100) (- 50)])"
proof (intro conjI)
  have h: "imgLoad env_wide (Src ''page'') = Some (200, 100)" "ctx2d env_wide"
    by (simp_all add: env_wide_def env_ok_def)
  have d: "(90::int) dvd - 90" "(90::int) dvd 360" by simp_all
  from applyImageAdjustments_canvas [OF h d(1), of 120 80]
  obtain rads W H ops where "rads = real_of_int (js_rem (- 90) 360) * pi / 180"
     and "W = real 200 * \<bar>cos rads\<bar> + real 100 * \<bar>sin rads\<bar>"
     and "H = real 200 * \<bar>sin rads\<bar> + real 100 * \<bar>cos rads\<bar>"
     and "ops = [Filter 120 80, Translate (W / 2) (H / 2), Rotate rads,
              DrawImage (Src ''page'') (- real 200 / 2) (- real 100 / 2)]"
     and "applyImageAdjustments env_wide (Src ''page'') 120 80 (- 90) = Resolved (Canvas W H ops)"
    by blast
  then show "applyImageAdjustments env_wide (Src ''page'') 120 80 (- 90)
     = Resolved (Canvas 100 200
         [Filter 120 80, Translate 50 100, Rotate (- (pi / 2)), DrawImage (Src ''page'') (- 100) (- 50)])"
    by (simp add: js_rem_def)
  from applyImageAdjustments_canvas [OF h d(2), of 120 80]
  obtain rads W H ops where "rads = real_of_int (js_rem 360 360) * pi / 180"
     and "W = real 200 * \<bar>cos rads\<bar> + real 100 * \<bar>sin rads\<bar>"
     and "H = real 200 * \<bar>sin rads\<bar> + real 100 * \<bar>cos rads\<bar>"
     and "ops = [Filter 120 80, Translate (W / 2) (H / 2), Rotate rads,
              DrawImage (Src ''page'') (- real 200 / 2) (- real 100 / 2)]"
     and "applyImageAdjustments env_wide (Src ''page'') 120 80 360 = Resolved (Canvas W H ops)"
    by blast
  then show "applyImageAdjustments env_wide (Src ''page'') 120 80 360
     = Resolved (Canvas 200 100
         [Filter 120 80, Translate 100 50, Rotate 0, DrawImage (Src ''page'') (- 100) (- 50)])"
    by (simp add: js_rem_def)
qed

end
